theory Spec2Isabelle
  imports Main "HOL-Library.Sublist"
begin

section \<open>The build command of the Tina CLI\<close>

text \<open>
  A shallow embedding of \<^verbatim>\<open>packages/@tinacms/cli/src/next/commands/build-command/index.ts\<close>:
  the class \<^verbatim>\<open>BuildCommand\<close> (\<^verbatim>\<open>catch\<close>, \<^verbatim>\<open>execute\<close>, \<^verbatim>\<open>checkClientInfo\<close>,
  \<^verbatim>\<open>checkGraphqlSchema\<close>) and the two module functions \<^verbatim>\<open>request\<close> and
  \<^verbatim>\<open>fetchRemoteGraphqlSchema\<close>.

  Asynchronous functions are sequential here (every promise is awaited at once), so
  \<^verbatim>\<open>async\<close>/\<^verbatim>\<open>await\<close> is plain sequencing. A thrown exception is the left summand of the
  result, the observable effects (HTTP requests, sleeps, progress bars, log lines, calls of
  imported functions, written files) are appended to a trace carried by the world.
\<close>

subsection \<open>JavaScript values\<close>

text \<open>A thrown JavaScript error, identified by its message.\<close>

datatype error = Error string

text \<open>
  A JavaScript number, by the two things this file asks of one: whether it is truthy (neither
  0 nor NaN) and the string it becomes inside a template literal.
\<close>

datatype js_number = JsNumber (nonzero: bool) (shown: string)

text \<open>The values a parsed JSON body can hold, and \<^verbatim>\<open>undefined\<close> for a missing property.\<close>

datatype jsval =
    JUndefined
  | JNull
  | JBool bool
  | JNum js_number
  | JStr string
  | JArr "jsval list"
  | JObj "(string \<times> jsval) list"

text \<open>The test \<^verbatim>\<open>if (v)\<close>. Arrays and objects are truthy, also when empty.\<close>

fun truthy :: "jsval \<Rightarrow> bool" where
  "truthy JUndefined = False"
| "truthy JNull = False"
| "truthy (JBool b) = b"
| "truthy (JNum n) = nonzero n"
| "truthy (JStr s) = (s \<noteq> [])"
| "truthy (JArr xs) = True"
| "truthy (JObj kvs) = True"

fun nullish :: "jsval \<Rightarrow> bool" where
  "nullish JUndefined = True"
| "nullish JNull = True"
| "nullish v = False"

text \<open>
  Reading a property of a value that is neither \<^verbatim>\<open>null\<close> nor \<^verbatim>\<open>undefined\<close>. The
  properties this file reads (\<^verbatim>\<open>status\<close>, \<^verbatim>\<open>timestamp\<close>, \<^verbatim>\<open>message\<close>, \<^verbatim>\<open>errors\<close>,
  \<^verbatim>\<open>data\<close>) exist on no boolean, number, string or array, so only an object can hold
  them. The keys of a parsed object are distinct.
\<close>

fun get_prop :: "jsval \<Rightarrow> string \<Rightarrow> jsval" where
  "get_prop (JObj kvs) k = (case map_of kvs k of None \<Rightarrow> JUndefined | Some v \<Rightarrow> v)"
| "get_prop v k = JUndefined"

text \<open>\<^verbatim>\<open>v.k\<close>: a TypeError on \<^verbatim>\<open>null\<close> and \<^verbatim>\<open>undefined\<close>.\<close>

definition member :: "jsval \<Rightarrow> string \<Rightarrow> error + jsval" where
  "member v k =
     (if nullish v then Inl (Error (''Cannot read properties of null or undefined, reading '' @ k))
      else Inr (get_prop v k))"

text \<open>\<^verbatim>\<open>v?.k\<close>: \<^verbatim>\<open>undefined\<close> on \<^verbatim>\<open>null\<close> and \<^verbatim>\<open>undefined\<close>.\<close>

definition opt_member :: "jsval \<Rightarrow> string \<Rightarrow> jsval" where
  "opt_member v k = (if nullish v then JUndefined else get_prop v k)"

text \<open>
  Decimal rendering of a small natural number inside a template literal: the HTTP status code
  (three digits) and the attempt counter. JavaScript prints numbers from \<open>10\<^sup>2\<^sup>1\<close> on in
  exponent form, which \<open>decimal\<close> does not.
\<close>

definition digit_char :: "nat \<Rightarrow> char" where
  "digit_char d = char_of (48 + d)"

fun digits_onto :: "nat \<Rightarrow> string \<Rightarrow> string" where
  "digits_onto n acc =
     (if n < 10 then digit_char n # acc
      else digits_onto (n div 10) (digit_char (n mod 10) # acc))"

definition decimal :: "nat \<Rightarrow> string" where
  "decimal n = digits_onto n []"

text \<open>\<^verbatim>\<open>Array.prototype.join\<close> on strings that are already rendered.\<close>

fun join :: "string \<Rightarrow> string list \<Rightarrow> string" where
  "join sep [] = []"
| "join sep [x] = x"
| "join sep (x # y # ys) = x @ sep @ join sep (y # ys)"

text \<open>The results of a list of conversions, up to the first one that throws.\<close>

fun collect :: "(error + 'a) list \<Rightarrow> error + 'a list" where
  "collect [] = Inr []"
| "collect (Inl e # rs) = Inl e"
| "collect (Inr x # rs) = (case collect rs of Inl e \<Rightarrow> Inl e | Inr xs \<Rightarrow> Inr (x # xs))"

text \<open>
  The string a value becomes inside a template literal (\<^verbatim>\<open>ToString\<close>). An array joins its
  elements with a comma, where \<^verbatim>\<open>null\<close> and \<^verbatim>\<open>undefined\<close> elements are empty. A parsed
  object is \<^verbatim>\<open>[object Object]\<close> through \<^verbatim>\<open>Object.prototype.toString\<close>, unless it has a
  \<^verbatim>\<open>toString\<close> key of its own: that value is not callable, nor does \<^verbatim>\<open>valueOf\<close> give a
  primitive, so the conversion throws a TypeError.
\<close>

fun to_string :: "jsval \<Rightarrow> error + string" where
  "to_string JUndefined = Inr ''undefined''"
| "to_string JNull = Inr ''null''"
| "to_string (JBool b) = Inr (if b then ''true'' else ''false'')"
| "to_string (JNum n) = Inr (shown n)"
| "to_string (JStr s) = Inr s"
| "to_string (JArr xs) =
     (case collect (map (\<lambda>x. if nullish x then Inr [] else to_string x) xs) of
        Inl e \<Rightarrow> Inl e
      | Inr ss \<Rightarrow> Inr (join '','' ss))"
| "to_string (JObj kvs) =
     (case map_of kvs ''toString'' of
        Some v \<Rightarrow> Inl (Error ''Cannot convert object to primitive value'')
      | None \<Rightarrow> Inr ''[object Object]'')"

text \<open>\<^verbatim>\<open>xs.join(sep)\<close> on an array of values.\<close>

definition array_join :: "string \<Rightarrow> jsval list \<Rightarrow> error + string" where
  "array_join sep xs =
     (case collect (map (\<lambda>x. if nullish x then Inr [] else to_string x) xs) of
        Inl e \<Rightarrow> Inl e
      | Inr ss \<Rightarrow> Inr (join sep ss))"

text \<open>
  \<^verbatim>\<open>errors.map((error) => error.message)\<close>: a TypeError when \<^verbatim>\<open>errors\<close> is no array
  (it has no \<^verbatim>\<open>map\<close>) or when an element is \<^verbatim>\<open>null\<close>.
\<close>

fun map_message :: "jsval list \<Rightarrow> error + jsval list" where
  "map_message [] = Inr []"
| "map_message (x # xs) =
     (case member x ''message'' of
        Inl e \<Rightarrow> Inl e
      | Inr m \<Rightarrow> (case map_message xs of Inl e \<Rightarrow> Inl e | Inr ms \<Rightarrow> Inr (m # ms)))"

fun errors_messages :: "jsval \<Rightarrow> error + jsval list" where
  "errors_messages (JArr xs) = map_message xs"
| "errors_messages v = Inl (Error ''json.errors.map is not a function'')"

subsection \<open>The world: HTTP, trace and files\<close>

record http_request =
  req_method :: string
  req_url :: string
  req_headers :: "(string \<times> string) list"
  req_body :: "string option"
  req_redirect :: "string option"

text \<open>
  A response of \<^verbatim>\<open>fetch\<close>: \<^verbatim>\<open>res.ok\<close>, \<^verbatim>\<open>res.status\<close>, \<^verbatim>\<open>res.statusText\<close> and what
  \<^verbatim>\<open>await res.json()\<close> gives, which throws when the body is no JSON text.
\<close>

record http_response =
  ok :: bool
  status :: nat
  statusText :: string
  json_body :: "error + jsval"

text \<open>The steps \<^verbatim>\<open>execute\<close> awaits, in the order of the source text.\<close>

datatype step =
    ProcessConfig
  | CreateDBServer
  | CreateDatabase
  | BuildSchema
  | GetASTSchema
  | CodegenExecute
  | CheckClientInfo
  | WaitForDB
  | CheckGraphqlSchema
  | BuildProductionSpa
  | OutputGitignore

text \<open>The two symbols a progress bar is ticked with: the check mark and the cross.\<close>

datatype prog = CheckMark | CrossMark

text \<open>
  What the command does to the outside. \<open>Started\<close> marks the call of a step of
  \<^verbatim>\<open>execute\<close> and \<open>Completed\<close> its normal return, \<open>ListenOn\<close> is the port
  \<^verbatim>\<open>createDBServer\<close> is called with. A summary is its heading and, for each item, the
  heading of the item and its key/value lines (a value may be \<^verbatim>\<open>undefined\<close>).
\<close>

datatype event =
    Fetch http_request
  | Sleep nat
  | Tick string prog
  | LogInfo string
  | LogWarn string
  | LogError string
  | ConsoleError error
  | Summary string "(string \<times> (string \<times> string option) list) list"
  | Started step
  | Completed step
  | ListenOn "nat option"
  | OutputFile string string

record world =
  trace :: "event list"
  files :: "string \<Rightarrow> string option"

type_synonym 'a io = "world \<Rightarrow> (error + 'a) \<times> world"

definition return_io :: "'a \<Rightarrow> 'a io" where
  "return_io x w = (Inr x, w)"

definition throw_io :: "error \<Rightarrow> 'a io" where
  "throw_io e w = (Inl e, w)"

text \<open>\<^verbatim>\<open>const x = await m; f(x)\<close>: an exception of \<open>m\<close> skips \<open>f\<close>.\<close>

definition bind_io :: "'a io \<Rightarrow> ('a \<Rightarrow> 'b io) \<Rightarrow> 'b io" where
  "bind_io m f w = (case m w of (Inl e, w') \<Rightarrow> (Inl e, w') | (Inr x, w') \<Rightarrow> f x w')"

definition emit :: "event \<Rightarrow> unit io" where
  "emit ev w = (Inr (), w\<lparr>trace := trace w @ [ev]\<rparr>)"

text \<open>\<^verbatim>\<open>try { m } catch (e) { h(e) }\<close>.\<close>

definition try_catch :: "'a io \<Rightarrow> (error \<Rightarrow> 'a io) \<Rightarrow> 'a io" where
  "try_catch m h w = (case m w of (Inl e, w') \<Rightarrow> h e w' | (Inr x, w') \<Rightarrow> (Inr x, w'))"

fun is_fetch :: "event \<Rightarrow> bool" where
  "is_fetch (Fetch rq) = True"
| "is_fetch ev = False"

definition fetches :: "event list \<Rightarrow> http_request list" where
  "fetches evs = concat (map (\<lambda>ev. case ev of Fetch rq \<Rightarrow> [rq] | _ \<Rightarrow> []) evs)"

subsection \<open>What the command imports\<close>

text \<open>The result of \<^verbatim>\<open>parseURL\<close>; each field is a string or \<^verbatim>\<open>null\<close>.\<close>

record parsed_url =
  url_clientId :: jsval
  url_branch :: jsval
  url_host :: jsval

text \<open>The fields of the Tina config this file reads; \<open>None\<close> is \<^verbatim>\<open>undefined\<close>.\<close>

record config =
  token :: "string option"
  clientId :: "string option"
  branch :: "string option"

text \<open>Schemas, schema documents and schema changes of the GraphQL libraries, by name.\<close>

datatype schema = Schema string

datatype document = Document string

datatype change = Change string

text \<open>
  Everything the file imports and does not define: the network behind \<^verbatim>\<open>fetch\<close> (the
  answer to the \<open>n\<close>-th request of the run), the GraphQL libraries, the config manager, the
  database and the other modules of the CLI. Each call either throws or returns.
\<close>

record env =
  net :: "nat \<Rightarrow> http_request \<Rightarrow> error + http_response"
  parseURL :: "string \<Rightarrow> error + parsed_url"
  dangerText :: "string \<Rightarrow> string"
  linkText :: "string \<Rightarrow> string"
  getIntrospectionQuery :: string
  JSON_stringify :: "jsval \<Rightarrow> string"
  buildClientSchema :: "jsval \<Rightarrow> error + schema"
  getGraphQLSchemaFromBridge :: "error + document"
  buildASTSchema :: "document \<Rightarrow> error + schema"
  diff :: "schema \<Rightarrow> schema \<Rightarrow> error + change list"
  processConfig :: "error + config"
  createDBServer :: "nat option \<Rightarrow> error + unit"
  createAndInitializeDatabase :: "error + unit"
  buildSchema :: "error + unit"
  getASTSchema :: "error + unit"
  codegen_execute :: "error + string"
  waitForDB :: "config \<Rightarrow> string \<Rightarrow> bool \<Rightarrow> error + unit"
  buildProductionSpa :: "string \<Rightarrow> error + unit"
  outputFile_fails :: "string \<Rightarrow> error option"
  outputGitignorePath :: string
  shouldSkipSDK :: bool
  printGeneratedClientFilePath :: string
  printGeneratedTypesFilePath :: string

text \<open>\<^verbatim>\<open>fetch(url, init)\<close>: the request is recorded, the network answers or fails.\<close>

definition fetch :: "env \<Rightarrow> http_request \<Rightarrow> http_response io" where
  "fetch env rq w =
     (net env (length (fetches (trace w))) rq, w\<lparr>trace := trace w @ [Fetch rq]\<rparr>)"

text \<open>\<^verbatim>\<open>if (token)\<close> on a string that may be \<^verbatim>\<open>undefined\<close>.\<close>

fun token_set :: "string option \<Rightarrow> bool" where
  "token_set None = False"
| "token_set (Some t) = (t \<noteq> [])"

text \<open>The headers both request functions build.\<close>

definition api_headers :: "string option \<Rightarrow> (string \<times> string) list" where
  "api_headers tok =
     (if token_set tok then [(''X-API-KEY'', the tok)] else []) @
     [(''Content-Type'', ''application/json'')]"

subsection \<open>\<^verbatim>\<open>request\<close>\<close>

definition auth_hint :: string where
  "auth_hint = ''Please check that your client ID, URL and read only token are configured properly.''"

definition faq_link :: string where
  "faq_link = ''https://tina.io/docs/errors/faq/''"

text \<open>
  What \<^verbatim>\<open>if (json) { additionalInfo += `\n\nMessage from server: ${json.message}` }\<close> appends;
  the conversion of \<^verbatim>\<open>json.message\<close> may throw.
\<close>

definition server_message :: "jsval \<Rightarrow> error + string" where
  "server_message json =
     (if truthy json
      then (case to_string (get_prop json ''message'') of
              Inl e \<Rightarrow> Inl e
            | Inr m \<Rightarrow> Inr ([CHR 0x0A, CHR 0x0A] @ ''Message from server: '' @ m))
      else Inr [])"

text \<open>The local variable \<^verbatim>\<open>additionalInfo\<close> when the response is not ok.\<close>

definition additionalInfo :: "http_response \<Rightarrow> jsval \<Rightarrow> error + string" where
  "additionalInfo res json =
     (case server_message json of
        Inl e \<Rightarrow> Inl e
      | Inr srv \<Rightarrow> Inr ((if status res = 401 \<or> status res = 403 then auth_hint else []) @ srv))"

definition not_ok_message :: "http_response \<Rightarrow> string \<Rightarrow> string" where
  "not_ok_message res info =
     ''Server responded with status code '' @ decimal (status res) @ '', '' @
     statusText res @ ''. '' @ info @
     '' Please see our FAQ for more information: '' @ faq_link"

definition errors_message :: "string \<Rightarrow> string" where
  "errors_message joined =
     ''Unable to fetch, please see our FAQ for more information: '' @ faq_link @
     [CHR 0x0A, CHR 0x0A] @ ''      Errors: '' @ [CHR 0x0A, CHR 0x09] @ joined"

record status_result =
  res_status :: jsval
  res_timestamp :: jsval

text \<open>The arguments \<^verbatim>\<open>request\<close> hands to \<^verbatim>\<open>fetch\<close>.\<close>

definition status_request :: "string option \<Rightarrow> string \<Rightarrow> http_request" where
  "status_request tok url =
     \<lparr>req_method = ''GET'', req_url = url, req_headers = api_headers tok,
      req_body = None, req_redirect = Some ''follow''\<rparr>"

definition request :: "env \<Rightarrow> string option \<Rightarrow> string \<Rightarrow> status_result io" where
  "request env tok url =
     bind_io (fetch env (status_request tok url))
       (\<lambda>res.
          case json_body res of
            Inl e \<Rightarrow> throw_io e
          | Inr json \<Rightarrow>
              if \<not> ok res
              then (case additionalInfo res json of
                      Inl e \<Rightarrow> throw_io e
                    | Inr info \<Rightarrow> throw_io (Error (not_ok_message res info)))
              else
                (case member json ''errors'' of
                   Inl e \<Rightarrow> throw_io e
                 | Inr errors \<Rightarrow>
                     if truthy errors
                     then (case errors_messages errors of
                             Inl e \<Rightarrow> throw_io e
                           | Inr ms \<Rightarrow>
                               (case array_join [CHR 0x0A] ms of
                                  Inl e \<Rightarrow> throw_io e
                                | Inr joined \<Rightarrow> throw_io (Error (errors_message joined))))
                     else return_io \<lparr>res_status = opt_member json ''status'',
                                      res_timestamp = opt_member json ''timestamp''\<rparr>))"

subsection \<open>\<^verbatim>\<open>fetchRemoteGraphqlSchema\<close>\<close>

text \<open>The arguments \<^verbatim>\<open>fetchRemoteGraphqlSchema\<close> hands to \<^verbatim>\<open>fetch\<close>.\<close>

definition introspection_request :: "env \<Rightarrow> string \<Rightarrow> string option \<Rightarrow> http_request" where
  "introspection_request env url tok =
     (let headers = api_headers tok;
          body = JSON_stringify env
                   (JObj [(''query'', JStr (getIntrospectionQuery env)), (''variables'', JObj [])])
      in \<lparr>req_method = ''POST'', req_url = url, req_headers = headers,
          req_body = Some body, req_redirect = None\<rparr>)"

definition fetchRemoteGraphqlSchema :: "env \<Rightarrow> string \<Rightarrow> string option \<Rightarrow> jsval io" where
  "fetchRemoteGraphqlSchema env url tok =
     bind_io (fetch env (introspection_request env url tok))
       (\<lambda>res.
          case json_body res of
            Inl e \<Rightarrow> throw_io e
          | Inr data \<Rightarrow> return_io (opt_member data ''data''))"

subsection \<open>The command line\<close>

text \<open>The flags as typed; \<open>None\<close> is a flag that was not supplied.\<close>

record cli =
  arg_rootPath :: "string option"
  arg_verbose :: "bool option"
  arg_noSDK :: "bool option"
  arg_datalayerPort :: "string option"
  arg_isomorphicGitBridge :: "bool option"
  arg_local :: "bool option"
  arg_experimentalData :: "bool option"
  arg_noTelemetry :: "bool option"
  arg_tinaGraphQLVersion :: "string option"

text \<open>\<^verbatim>\<open>Option.Boolean(name, false)\<close> and \<^verbatim>\<open>Option.Boolean(name)\<close> under \<^verbatim>\<open>if\<close>.\<close>

fun flag_on :: "bool option \<Rightarrow> bool" where
  "flag_on None = False"
| "flag_on (Some b) = b"

definition verbose :: "cli \<Rightarrow> bool" where
  "verbose c = flag_on (arg_verbose c)"

definition noSDK :: "cli \<Rightarrow> bool" where
  "noSDK c = flag_on (arg_noSDK c)"

text \<open>\<^verbatim>\<open>Option.String('--datalayer-port', '9000', ...)\<close>.\<close>

definition datalayerPort :: "cli \<Rightarrow> string" where
  "datalayerPort c = (case arg_datalayerPort c of None \<Rightarrow> ''9000'' | Some s \<Rightarrow> s)"

text \<open>
  \<^verbatim>\<open>Number(s)\<close> on a string of decimal digits (the empty string is 0). \<open>None\<close> stands for
  what JavaScript gives on any other string, which this model does not tell apart.
\<close>

fun Number_from :: "nat \<Rightarrow> string \<Rightarrow> nat option" where
  "Number_from acc [] = Some acc"
| "Number_from acc (c # cs) =
     (if 48 \<le> (of_char c :: nat) \<and> (of_char c :: nat) \<le> 57
      then Number_from (10 * acc + (of_char c - 48)) cs
      else None)"

definition Number :: "string \<Rightarrow> nat option" where
  "Number s = Number_from 0 s"

subsection \<open>\<^verbatim>\<open>checkClientInfo\<close>\<close>

text \<open>The result of an imported call: it touches nothing the trace records.\<close>

definition ext :: "error + 'a \<Rightarrow> 'a io" where
  "ext r w = (r, w)"

text \<open>\<^verbatim>\<open>${s}\<close> for a string that may be \<^verbatim>\<open>undefined\<close>.\<close>

fun opt_string :: "string option \<Rightarrow> string" where
  "opt_string None = ''undefined''"
| "opt_string (Some s) = s"

definition client_bar :: string where
  "client_bar = ''Checking clientId and token. :prog''"

definition branch_bar :: string where
  "branch_bar = ''Checking branch is on Tina Cloud. :prog''"

text \<open>\<^verbatim>\<open>`https://${host}/db/${clientId}/status/${branch}`\<close>; a conversion may throw.\<close>

definition status_url :: "parsed_url \<Rightarrow> error + string" where
  "status_url p =
     (case to_string (url_host p) of
        Inl e \<Rightarrow> Inl e
      | Inr host \<Rightarrow>
          (case to_string (url_clientId p) of
             Inl e \<Rightarrow> Inl e
           | Inr cid \<Rightarrow>
               (case to_string (url_branch p) of
                  Inl e \<Rightarrow> Inl e
                | Inr br \<Rightarrow> Inr (''https://'' @ host @ ''/db/'' @ cid @ ''/status/'' @ br))))"

text \<open>
  Modelled from the spec: \<^verbatim>\<open>sleepAndCallFunc\<close> of \<^verbatim>\<open>utils/sleep\<close> is not among the
  sources. The spec speaks of polling "at 5-second intervals" in a "sleep-based retry
  loop": the helper sleeps \<open>ms\<close> milliseconds, then calls \<open>fn\<close> and returns what it returns.
\<close>

definition sleepAndCallFunc :: "'a io \<Rightarrow> nat \<Rightarrow> 'a io" where
  "sleepAndCallFunc fn ms = bind_io (emit (Sleep ms)) (\<lambda>_. fn)"

text \<open>
  The arrow function handed to \<^verbatim>\<open>sleepAndCallFunc\<close> in round \<open>i\<close>. Its \<^verbatim>\<open>return\<close>
  leaves the arrow function, whose value is \<^verbatim>\<open>undefined\<close> on both paths.
\<close>

definition poll_fn :: "env \<Rightarrow> cli \<Rightarrow> string option \<Rightarrow> string \<Rightarrow> nat \<Rightarrow> jsval io" where
  "poll_fn env c tok url i =
     bind_io (request env tok url)
       (\<lambda>res.
          bind_io
            (if verbose c
             then (case to_string (res_status res) of
                     Inl e \<Rightarrow> throw_io e
                   | Inr st \<Rightarrow>
                       emit (LogInfo (''Branch status: '' @ st @ ''. Attempt: '' @
                                      decimal (i + 1) @ ''. Trying again in 5 seconds.'')))
             else return_io ())
            (\<lambda>_. if \<not> (res_status res = JStr ''unknown'')
                 then bind_io (emit (Tick branch_bar CheckMark)) (\<lambda>_. return_io JUndefined)
                 else return_io JUndefined))"

text \<open>\<^verbatim>\<open>for (let i = 0; i <= 5; i++) { await sleepAndCallFunc({ fn, ms: 5000 }) }\<close>.\<close>

function poll_loop :: "env \<Rightarrow> cli \<Rightarrow> string option \<Rightarrow> string \<Rightarrow> nat \<Rightarrow> unit io" where
  "poll_loop env c tok url i =
     (if i \<le> 5
      then bind_io (sleepAndCallFunc (poll_fn env c tok url i) 5000)
             (\<lambda>_. poll_loop env c tok url (i + 1))
      else return_io ())"
  by pat_completeness auto
termination
  by (relation "measure (\<lambda>(env, c, tok, url, i). 6 - i)") auto

text \<open>
  The argument of \<^verbatim>\<open>logger.error\<close> after the loop. The source converts \<^verbatim>\<open>branch\<close> twice;
  both conversions give the same string.
\<close>

definition not_on_cloud_log :: "env \<Rightarrow> parsed_url \<Rightarrow> error + string" where
  "not_on_cloud_log env p =
     (case to_string (url_branch p) of
        Inl e \<Rightarrow> Inl e
      | Inr br \<Rightarrow>
          (case to_string (url_clientId p) of
             Inl e \<Rightarrow> Inl e
           | Inr cid \<Rightarrow>
               Inr (dangerText env (''ERROR: Branch '' @ [CHR 0x27] @ br @ [CHR 0x27] @
                                    '' is not on Tina Cloud.'') @
                    '' Please make sure that branch '' @ [CHR 0x27] @ br @ [CHR 0x27] @
                    '' exists in your repository and that you have pushed your all changes to the remote. View all all branches and there current status here: '' @
                    linkText env (''https://app.tina.io/projects/'' @ cid @ ''/configuration''))))"

text \<open>The statements of \<^verbatim>\<open>checkClientInfo\<close> from the first progress bar on, for the url built.\<close>

definition check_status :: "env \<Rightarrow> cli \<Rightarrow> config \<Rightarrow> parsed_url \<Rightarrow> string \<Rightarrow> unit io" where
  "check_status env c cfg p url =
     bind_io
       (try_catch
          (bind_io (request env (token cfg) url)
             (\<lambda>res. bind_io (emit (Tick client_bar CheckMark))
                (\<lambda>_. return_io (\<not> (res_status res = JStr ''unknown'')))))
          (\<lambda>e. bind_io
                 (emit (Summary ''Error when checking client information''
                          [(''You provided'',
                            [(''clientId'', clientId cfg), (''token'', token cfg)])]))
                 (\<lambda>_. throw_io e)))
       (\<lambda>branchKnown.
          if branchKnown then emit (Tick branch_bar CheckMark)
          else
            bind_io (poll_loop env c (token cfg) url 0)
              (\<lambda>_. bind_io (emit (Tick branch_bar CrossMark))
                 (\<lambda>_. bind_io (ext (not_on_cloud_log env p))
                    (\<lambda>msg. bind_io (emit (LogError msg))
                       (\<lambda>_. throw_io (Error ''Branch is not on Tina Cloud''))))))"

definition checkClientInfo :: "env \<Rightarrow> cli \<Rightarrow> config \<Rightarrow> string \<Rightarrow> unit io" where
  "checkClientInfo env c cfg apiURL =
     bind_io (ext (parseURL env apiURL))
       (\<lambda>p. bind_io (ext (status_url p)) (\<lambda>url. check_status env c cfg p url))"

subsection \<open>\<^verbatim>\<open>checkGraphqlSchema\<close>\<close>

definition schema_bar :: string where
  "schema_bar = ''Checking local GraphQL Schema matches server. :prog''"

definition mismatch_message :: "config \<Rightarrow> string" where
  "mismatch_message cfg =
     ''The local GraphQL schema doesn't match the remote GraphQL schema. Please push up your changes to Github to update your remote GraphQL schema.'' @
     (if token_set (branch cfg)
      then [CHR 0x0A, CHR 0x0A] @ ''Additional info: Branch: '' @ opt_string (branch cfg) @
           '', Client ID: '' @ opt_string (clientId cfg) @ '' ''
      else [])"

definition checkGraphqlSchema :: "env \<Rightarrow> config \<Rightarrow> string \<Rightarrow> unit io" where
  "checkGraphqlSchema env cfg apiURL =
     bind_io (fetchRemoteGraphqlSchema env apiURL (token cfg))
       (\<lambda>remoteSchema.
     bind_io (ext (buildClientSchema env remoteSchema))
       (\<lambda>remoteGqlSchema.
     bind_io (ext (getGraphQLSchemaFromBridge env))
       (\<lambda>localSchemaDocument.
     bind_io (ext (buildASTSchema env localSchemaDocument))
       (\<lambda>localGraphqlSchema.
     bind_io (ext (diff env localGraphqlSchema remoteGqlSchema))
       (\<lambda>diffResult.
          if length diffResult = 0 then emit (Tick schema_bar CheckMark)
          else bind_io (emit (Tick schema_bar CrossMark))
                 (\<lambda>_. throw_io (Error (mismatch_message cfg))))))))"

subsection \<open>\<^verbatim>\<open>execute\<close> and \<^verbatim>\<open>catch\<close>\<close>

text \<open>How a run of the command ends: an exception leaves \<^verbatim>\<open>execute\<close>, or the process exits.\<close>

datatype outcome = Threw error | Exited nat

text \<open>
  \<^verbatim>\<open>process.exit(code)\<close>. Without a code the process exits with \<^verbatim>\<open>process.exitCode\<close>,
  which nothing here assigns, so with the success code 0.
\<close>

definition process_exit :: "nat option \<Rightarrow> world \<Rightarrow> outcome \<times> world" where
  "process_exit code w = (Exited (case code of None \<Rightarrow> 0 | Some n \<Rightarrow> n), w)"

text \<open>\<^verbatim>\<open>fs.outputFile(path, content)\<close>: the file holds the content afterwards, unless it throws.\<close>

definition outputFile :: "env \<Rightarrow> string \<Rightarrow> string \<Rightarrow> unit io" where
  "outputFile env path content w =
     (case outputFile_fails env path of
        Some e \<Rightarrow> (Inl e, w)
      | None \<Rightarrow>
          (Inr (), w\<lparr>trace := trace w @ [OutputFile path content],
                       files := (files w)(path \<mapsto> content)\<rparr>))"

text \<open>One awaited step of \<^verbatim>\<open>execute\<close>, between its two marks.\<close>

definition step_io :: "step \<Rightarrow> 'a io \<Rightarrow> 'a io" where
  "step_io s m =
     bind_io (emit (Started s))
       (\<lambda>_. bind_io m (\<lambda>x. bind_io (emit (Completed s)) (\<lambda>_. return_io x)))"

definition gitignore_content :: string where
  "gitignore_content = ''index.html'' @ [CHR 0x0A] @ ''assets/''"

text \<open>The warnings for deprecated flags at the start of \<^verbatim>\<open>execute\<close>.\<close>

definition warn_if :: "bool \<Rightarrow> string \<Rightarrow> unit io" where
  "warn_if b msg = (if b then emit (LogWarn msg) else return_io ())"

definition deprecation_warnings :: "cli \<Rightarrow> unit io" where
  "deprecation_warnings c =
     bind_io (emit (LogInfo ''Starting Tina build''))
       (\<lambda>_. bind_io (warn_if (flag_on (arg_isomorphicGitBridge c))
                        ''--isomorphicGitBridge has been deprecated'')
       (\<lambda>_. bind_io (warn_if (flag_on (arg_experimentalData c))
                        ''--experimentalDataLayer has been deprecated, the data layer is now built-in automatically'')
       (\<lambda>_. bind_io (warn_if (flag_on (arg_local c)) ''--local has been deprecated'')
       (\<lambda>_. warn_if (noSDK c)
               ''--noSDK has been deprecated, and will be unsupported in a future release. This should be set in the config at client.skip = true''))))"

definition build_summary :: "env \<Rightarrow> string \<Rightarrow> event" where
  "build_summary env apiURL =
     Summary ''Tina build complete''
       ((''Tina Config'', [(''API url'', Some apiURL)]) #
        (if \<not> shouldSkipSDK env
         then [(''Auto-generated files'',
                [(''GraphQL Client'', Some (printGeneratedClientFilePath env)),
                 (''Typescript Types'', Some (printGeneratedTypesFilePath env))])]
         else []))"

text \<open>\<^verbatim>\<open>createDBServer(port)\<close>: the call is recorded with the port it is made with.\<close>

definition listen :: "env \<Rightarrow> nat option \<Rightarrow> unit io" where
  "listen env port = bind_io (emit (ListenOn port)) (\<lambda>_. ext (createDBServer env port))"

text \<open>The statements of \<^verbatim>\<open>execute\<close> after the config is processed, up to the summary.\<close>

definition build_steps :: "env \<Rightarrow> cli \<Rightarrow> config \<Rightarrow> unit io" where
  "build_steps env c cfg =
     bind_io (step_io CreateDBServer (listen env (Number (datalayerPort c))))
       (\<lambda>_.
     bind_io (step_io CreateDatabase (ext (createAndInitializeDatabase env)))
       (\<lambda>_.
     bind_io (step_io BuildSchema (ext (buildSchema env)))
       (\<lambda>_.
     bind_io (step_io GetASTSchema (ext (getASTSchema env)))
       (\<lambda>_.
     bind_io (step_io CodegenExecute (ext (codegen_execute env)))
       (\<lambda>apiURL.
     bind_io (step_io CheckClientInfo (checkClientInfo env c cfg apiURL))
       (\<lambda>_.
     bind_io (step_io WaitForDB (ext (waitForDB env cfg apiURL False)))
       (\<lambda>_.
     bind_io (step_io CheckGraphqlSchema (checkGraphqlSchema env cfg apiURL))
       (\<lambda>_.
     bind_io (step_io BuildProductionSpa (ext (buildProductionSpa env apiURL)))
       (\<lambda>_.
     bind_io (step_io OutputGitignore
                (outputFile env (outputGitignorePath env) gitignore_content))
       (\<lambda>_. emit (build_summary env apiURL)))))))))))"

definition execute :: "env \<Rightarrow> cli \<Rightarrow> world \<Rightarrow> outcome \<times> world" where
  "execute env c w =
     (case bind_io (deprecation_warnings c) (\<lambda>_. step_io ProcessConfig (ext (processConfig env))) w of
        (Inl (Error msg), w1) \<Rightarrow>
          process_exit (Some 1)
            (w1\<lparr>trace := trace w1 @
                     [LogError msg,
                      LogError ''Unable to build, please fix your Tina config and try again'']\<rparr>)
      | (Inr cfg, w1) \<Rightarrow>
          (case build_steps env c cfg w1 of
             (Inl e, w2) \<Rightarrow> (Threw e, w2)
           | (Inr u, w2) \<Rightarrow> process_exit None w2))"

text \<open>\<^verbatim>\<open>catch(error)\<close>: the handler the CLI framework calls with an error thrown by \<^verbatim>\<open>execute\<close>.\<close>

definition catch :: "error \<Rightarrow> world \<Rightarrow> outcome \<times> world" where
  "catch e w = process_exit (Some 1) (w\<lparr>trace := trace w @ [ConsoleError e]\<rparr>)"

text \<open>
  The command boundary: the CLI framework awaits \<^verbatim>\<open>execute\<close> and hands an error it throws
  to the \<^verbatim>\<open>catch\<close> of the command.
\<close>

definition run :: "env \<Rightarrow> cli \<Rightarrow> world \<Rightarrow> outcome \<times> world" where
  "run env c w =
     (case execute env c w of
        (Threw e, w') \<Rightarrow> catch e w'
      | (Exited n, w') \<Rightarrow> (Exited n, w'))"

subsection \<open>Sample runs\<close>

text \<open>A network that answers the requests of a run from a list, and is down afterwards.\<close>

definition net_of_list :: "http_response list \<Rightarrow> nat \<Rightarrow> http_request \<Rightarrow> error + http_response" where
  "net_of_list rs n rq = (if n < length rs then Inr (rs ! n) else Inl (Error ''network is down''))"

definition ok_response :: "jsval \<Rightarrow> http_response" where
  "ok_response j = \<lparr>ok = True, status = 200, statusText = ''OK'', json_body = Inr j\<rparr>"

definition status_response :: "string \<Rightarrow> http_response" where
  "status_response s = ok_response (JObj [(''status'', JStr s), (''timestamp'', JNum (JsNumber True ''1700000000''))])"

definition introspection_response :: "string \<Rightarrow> http_response" where
  "introspection_response sdl = ok_response (JObj [(''data'', JStr sdl)])"

definition sample_apiURL :: string where
  "sample_apiURL = ''https://content.tinajs.io/content/abc123/github/main''"

definition sample_config :: config where
  "sample_config = \<lparr>token = Some ''secret'', clientId = Some ''abc123'', branch = Some ''main''\<rparr>"

definition sample_url :: parsed_url where
  "sample_url = \<lparr>url_clientId = JStr ''abc123'', url_branch = JStr ''main'',
                  url_host = JStr ''content.tinajs.io''\<rparr>"

text \<open>A project where every imported call succeeds, over a given network.\<close>

definition sample_env :: "(nat \<Rightarrow> http_request \<Rightarrow> error + http_response) \<Rightarrow> env" where
  "sample_env n =
     \<lparr>net = n,
      parseURL = (\<lambda>u. Inr sample_url),
      dangerText = (\<lambda>s. s),
      linkText = (\<lambda>s. s),
      getIntrospectionQuery = ''query IntrospectionQuery { __schema { types { name } } }'',
      JSON_stringify = (\<lambda>v. case get_prop v ''query'' of JStr q \<Rightarrow> q | _ \<Rightarrow> []),
      buildClientSchema =
        (\<lambda>v. case v of JStr sdl \<Rightarrow> Inr (Schema sdl)
                | _ \<Rightarrow> Inl (Error ''Invalid or incomplete introspection result'')),
      getGraphQLSchemaFromBridge = Inr (Document ''type Query { post: String }''),
      buildASTSchema = (\<lambda>d. case d of Document sdl \<Rightarrow> Inr (Schema sdl)),
      diff = (\<lambda>a b. Inr (if a = b then [] else [Change ''schema changed''])),
      processConfig = Inr sample_config,
      createDBServer = (\<lambda>p. Inr ()),
      createAndInitializeDatabase = Inr (),
      buildSchema = Inr (),
      getASTSchema = Inr (),
      codegen_execute = Inr ''https://content.tinajs.io/content/abc123/github/main'',
      waitForDB = (\<lambda>cfg u b. Inr ()),
      buildProductionSpa = (\<lambda>u. Inr ()),
      outputFile_fails = (\<lambda>p. None),
      outputGitignorePath = ''public/admin/.gitignore'',
      shouldSkipSDK = False,
      printGeneratedClientFilePath = ''tina/__generated__/client.ts'',
      printGeneratedTypesFilePath = ''tina/__generated__/types.ts''\<rparr>"

definition no_flags :: cli where
  "no_flags =
     \<lparr>arg_rootPath = None, arg_verbose = None, arg_noSDK = None, arg_datalayerPort = None,
      arg_isomorphicGitBridge = None, arg_local = None, arg_experimentalData = None,
      arg_noTelemetry = None, arg_tinaGraphQLVersion = None\<rparr>"

definition fresh :: world where
  "fresh = \<lparr>trace = [], files = (\<lambda>p. None)\<rparr>"

definition unauthorized_response :: http_response where
  "unauthorized_response =
     \<lparr>ok = False, status = 401, statusText = ''Unauthorized'', json_body = Inr JNull\<rparr>"


definition bad_gateway_response :: http_response where
  "bad_gateway_response =
     \<lparr>ok = False, status = 502, statusText = ''Bad Gateway'',
      json_body = Inl (Error ''invalid json response body'')\<rparr>"


definition data_response :: http_response where
  "data_response =
     \<lparr>ok = False, status = 503, statusText = ''Service Unavailable'',
      json_body = Inr (JObj [(''data'', JStr ''partial'')])\<rparr>"

definition server_error_response :: http_response where
  "server_error_response =
     \<lparr>ok = False, status = 500, statusText = ''Internal Server Error'',
      json_body = Inr (JObj [(''message'', JStr ''boom'')])\<rparr>"

subsection \<open>Traces of quiet actions\<close>

text \<open>
  The events that mark the progress of \<^verbatim>\<open>execute\<close>: the step marks, the port handed to
  \<^verbatim>\<open>createDBServer\<close> and the written file.
\<close>

fun visible :: "event \<Rightarrow> bool" where
  "visible (Started s) = True"
| "visible (Completed s) = True"
| "visible (ListenOn p) = True"
| "visible (OutputFile p c) = True"
| "visible ev = False"

definition vis :: "event list \<Rightarrow> event list" where
  "vis evs = filter visible evs"

text \<open>
  An action is quiet when all it does to the world is to append events that are not visible,
  its requests all being in \<open>R\<close>.
\<close>

definition quiet :: "http_request set \<Rightarrow> 'a io \<Rightarrow> bool" where
  "quiet R m =
     (\<forall>w. \<exists>evs. snd (m w) = w\<lparr>trace := trace w @ evs\<rparr> \<and> vis evs = [] \<and> set (fetches evs) \<subseteq> R)"

subsection \<open>The visible trace of a run\<close>

text \<open>The files after a trace: each \<open>OutputFile\<close> event writes its file.\<close>

fun write_event :: "(string \<Rightarrow> string option) \<Rightarrow> event \<Rightarrow> (string \<Rightarrow> string option)" where
  "write_event fs (OutputFile p c) = fs(p \<mapsto> c)"
| "write_event fs ev = fs"

text \<open>
  The visible events one step of \<^verbatim>\<open>execute\<close> leaves when it returns (\<open>ok_vis\<close>) and when it
  throws (\<open>fail_vis\<close>); \<open>success\<close> is the visible trace of a run of steps that all return,
  \<open>failures\<close> lists the visible traces of the runs in which one of them throws.
\<close>

fun ok_vis :: "env \<Rightarrow> cli \<Rightarrow> step \<Rightarrow> event list" where
  "ok_vis env c CreateDBServer =
     [Started CreateDBServer, ListenOn (Number (datalayerPort c)), Completed CreateDBServer]"
| "ok_vis env c OutputGitignore =
     [Started OutputGitignore, OutputFile (outputGitignorePath env) gitignore_content,
      Completed OutputGitignore]"
| "ok_vis env c s = [Started s, Completed s]"

fun fail_vis :: "env \<Rightarrow> cli \<Rightarrow> step \<Rightarrow> event list" where
  "fail_vis env c CreateDBServer = [Started CreateDBServer, ListenOn (Number (datalayerPort c))]"
| "fail_vis env c s = [Started s]"

definition success :: "env \<Rightarrow> cli \<Rightarrow> step list \<Rightarrow> event list" where
  "success env c ss = concat (map (ok_vis env c) ss)"

fun failures :: "env \<Rightarrow> cli \<Rightarrow> step list \<Rightarrow> event list list" where
  "failures env c [] = []"
| "failures env c (s # ss) = fail_vis env c s # map ((@) (ok_vis env c s)) (failures env c ss)"

text \<open>The steps of \<^verbatim>\<open>execute\<close> after the config, in the order of the source text.\<close>

definition build_order :: "step list" where
  "build_order =
     [CreateDBServer, CreateDatabase, BuildSchema, GetASTSchema, CodegenExecute, CheckClientInfo,
      WaitForDB, CheckGraphqlSchema, BuildProductionSpa, OutputGitignore]"

definition all_steps :: "step list" where
  "all_steps = ProcessConfig # build_order"

text \<open>The steps the specification names, in the order it gives.\<close>

definition claimed_order :: "step list" where
  "claimed_order =
     [ProcessConfig, BuildSchema, CodegenExecute, CheckClientInfo, WaitForDB, CheckGraphqlSchema,
      BuildProductionSpa]"

text \<open>The marks of the steps in \<open>ss\<close>, and the trace in which each of them runs and returns.\<close>

fun about :: "step list \<Rightarrow> event \<Rightarrow> bool" where
  "about ss (Started s) = (s \<in> set ss)"
| "about ss (Completed s) = (s \<in> set ss)"
| "about ss ev = False"

definition marks_of :: "step list \<Rightarrow> event list" where
  "marks_of ss = concat (map (\<lambda>s. [Started s, Completed s]) ss)"

text \<open>Step \<open>s\<close> threw: it was started and did not return.\<close>

definition threw_in :: "event list \<Rightarrow> step \<Rightarrow> bool" where
  "threw_in evs s = (Started s \<in> set evs \<and> Completed s \<notin> set evs)"

subsection \<open>What the calls of a run return\<close>

fun isOK :: "error + 'a \<Rightarrow> bool" where
  "isOK (Inr x) = True"
| "isOK (Inl e) = False"

text \<open>
  Whether the call that step \<open>s\<close> of \<^verbatim>\<open>execute\<close> makes returns normally, in a run that starts
  in world \<open>w\<close>: the result of the imported function on the arguments \<^verbatim>\<open>execute\<close> passes
  (the config that \<^verbatim>\<open>processConfig\<close> gave, the URL that \<^verbatim>\<open>codegen.execute\<close> gave, the
  number of the port option). The two checks of this file send the only requests of a run,
  so \<^verbatim>\<open>checkClientInfo\<close> meets the network as it is in \<open>w\<close> and \<^verbatim>\<open>checkGraphqlSchema\<close> as
  \<^verbatim>\<open>checkClientInfo\<close> left it.
\<close>

fun returns :: "env \<Rightarrow> cli \<Rightarrow> world \<Rightarrow> step \<Rightarrow> bool" where
  "returns env c w ProcessConfig = isOK (processConfig env)"
| "returns env c w CreateDBServer = isOK (createDBServer env (Number (datalayerPort c)))"
| "returns env c w CreateDatabase = isOK (createAndInitializeDatabase env)"
| "returns env c w BuildSchema = isOK (buildSchema env)"
| "returns env c w GetASTSchema = isOK (getASTSchema env)"
| "returns env c w CodegenExecute = isOK (codegen_execute env)"
| "returns env c w CheckClientInfo =
     (case (processConfig env, codegen_execute env) of
        (Inr cfg, Inr apiURL) \<Rightarrow> isOK (fst (checkClientInfo env c cfg apiURL w))
      | _ \<Rightarrow> False)"
| "returns env c w WaitForDB =
     (case (processConfig env, codegen_execute env) of
        (Inr cfg, Inr apiURL) \<Rightarrow> isOK (waitForDB env cfg apiURL False)
      | _ \<Rightarrow> False)"
| "returns env c w CheckGraphqlSchema =
     (case (processConfig env, codegen_execute env) of
        (Inr cfg, Inr apiURL) \<Rightarrow>
          isOK (fst (checkGraphqlSchema env cfg apiURL (snd (checkClientInfo env c cfg apiURL w))))
      | _ \<Rightarrow> False)"
| "returns env c w BuildProductionSpa =
     (case codegen_execute env of Inr apiURL \<Rightarrow> isOK (buildProductionSpa env apiURL) | _ \<Rightarrow> False)"
| "returns env c w OutputGitignore = (outputFile_fails env (outputGitignorePath env) = None)"

text \<open>The steps of \<^verbatim>\<open>execute\<close> before step \<open>s\<close>.\<close>

definition earlier :: "step \<Rightarrow> step list" where
  "earlier s = takeWhile (\<lambda>t. t \<noteq> s) all_steps"

text \<open>
  The visible trace the steps \<open>ss\<close> leave, given what their calls return: each step that
  returns is followed by the next, the first that throws ends the trace.
\<close>

fun expected :: "env \<Rightarrow> cli \<Rightarrow> world \<Rightarrow> step list \<Rightarrow> event list" where
  "expected env c w [] = []"
| "expected env c w (s # ss) =
     (if returns env c w s then ok_vis env c s @ expected env c w ss else fail_vis env c s)"

text \<open>
  An action, started in world \<open>v\<close> of a run that began in \<open>w\<close>, goes through the steps \<open>ss\<close>:
  its visible trace is the expected one, the files are what the trace wrote, and it returns
  exactly when the call of every step returns.
\<close>

definition follows :: "env \<Rightarrow> cli \<Rightarrow> world \<Rightarrow> step list \<Rightarrow> 'a io \<Rightarrow> world \<Rightarrow> bool" where
  "follows env c w ss m v =
     (\<exists>evs.
        snd (m v) = v\<lparr>trace := trace v @ evs, files := foldl write_event (files v) (vis evs)\<rparr> \<and>
        vis evs = expected env c w ss \<and>
        (isOK (fst (m v)) \<longleftrightarrow> list_all (returns env c w) ss))"

text \<open>
  An action is stable when its result, and the number of requests sent after it, depend on
  the world only through the number of requests sent before it.
\<close>

definition stable :: "'a io \<Rightarrow> bool" where
  "stable m =
     (\<forall>v w. length (fetches (trace v)) = length (fetches (trace w)) \<longrightarrow>
        fst (m v) = fst (m w) \<and>
        length (fetches (trace (snd (m v)))) = length (fetches (trace (snd (m w)))))"

text \<open>
  Two networks for the sample project: on the first the remote schema is the local one, on
  the second it differs.
\<close>

definition good_net :: "nat \<Rightarrow> http_request \<Rightarrow> error + http_response" where
  "good_net =
     net_of_list [status_response ''success'', introspection_response ''type Query { post: String }'']"

definition stale_net :: "nat \<Rightarrow> http_request \<Rightarrow> error + http_response" where
  "stale_net =
     net_of_list [status_response ''success'', introspection_response ''type Query { post: Int }'']"

text \<open>A network on which the branch is unknown at first and known at every poll.\<close>

definition found_late_net :: "nat \<Rightarrow> http_request \<Rightarrow> error + http_response" where
  "found_late_net =
     net_of_list
       [status_response ''unknown'', status_response ''success'', status_response ''success'',
        status_response ''success'', status_response ''success'', status_response ''success'',
        status_response ''success'']"

text \<open>The sample project on a machine where port 9000 is taken.\<close>

definition port_in_use_env :: "(nat \<Rightarrow> http_request \<Rightarrow> error + http_response) \<Rightarrow> env" where
  "port_in_use_env n =
     (sample_env n)\<lparr>createDBServer :=
        (\<lambda>p. if p = Some 9000 then Inl (Error ''EADDRINUSE'') else Inr ())\<rparr>"

section \<open>Properties\<close>

subsection \<open>\<^verbatim>\<open>request\<close> and \<^verbatim>\<open>fetchRemoteGraphqlSchema\<close>\<close>

lemma fetch_apply:
  "fetch env rq w = (net env (length (fetches (trace w))) rq, w\<lparr>trace := trace w @ [Fetch rq]\<rparr>)"
  by (simp add: fetch_def)

lemma request_body_error:
  assumes "net env (length (fetches (trace w))) (status_request tok url) = Inr res"
      and "json_body res = Inl e"
  shows "fst (request env tok url w) = Inl e"
  using assms by (simp add: request_def bind_io_def fetch_apply throw_io_def)

lemma request_not_ok:
  assumes "net env (length (fetches (trace w))) (status_request tok url) = Inr res"
      and "json_body res = Inr json" and "\<not> ok res"
  shows "fst (request env tok url w) =
           (case additionalInfo res json of
              Inl e \<Rightarrow> Inl e
            | Inr info \<Rightarrow> Inl (Error (not_ok_message res info)))"
  using assms
  by (simp add: request_def bind_io_def fetch_apply throw_io_def split: sum.splits)

lemma request_not_ok_throws:
  assumes "net env (length (fetches (trace w))) (status_request tok url) = Inr res"
      and "\<not> ok res"
  shows "\<exists>e. fst (request env tok url w) = Inl e"
proof (cases "json_body res")
  case (Inl e)
  then show ?thesis using request_body_error [OF assms(1)] by blast
next
  case (Inr json)
  then show ?thesis
    using request_not_ok [OF assms(1) Inr assms(2)] by (auto split: sum.splits)
qed


lemma request_ok:
  assumes "net env (length (fetches (trace w))) (status_request tok url) = Inr res"
      and "json_body res = Inr json" and "ok res" and "\<not> nullish json"
      and "\<not> truthy (get_prop json ''errors'')"
  shows "fst (request env tok url w) =
           Inr \<lparr>res_status = get_prop json ''status'', res_timestamp = get_prop json ''timestamp''\<rparr>"
  using assms
  by (auto simp add: request_def bind_io_def fetch_apply throw_io_def return_io_def member_def
        opt_member_def split: sum.splits)





lemma fetchRemote_apply:
  assumes "net env (length (fetches (trace w))) (introspection_request env url tok) = Inr res"
  shows "fst (fetchRemoteGraphqlSchema env url tok w) =
           (case json_body res of Inl e \<Rightarrow> Inl e | Inr data \<Rightarrow> Inr (opt_member data ''data''))"
  using assms
  by (simp add: fetchRemoteGraphqlSchema_def bind_io_def fetch_apply return_io_def throw_io_def
        split: sum.splits)

text \<open>
  Claim C8, as the code has it: \<^verbatim>\<open>fetchRemoteGraphqlSchema\<close> never looks at the status of
  the response. Whatever \<^verbatim>\<open>ok\<close>, \<^verbatim>\<open>status\<close> and \<^verbatim>\<open>statusText\<close> are, a body that parses
  makes it return: the value of the \<^verbatim>\<open>data\<close> field when the body is an object that has one,
  \<^verbatim>\<open>undefined\<close> otherwise. A body that does not parse makes it throw the error of
  \<^verbatim>\<open>res.json()\<close>. \<^verbatim>\<open>request\<close> throws on every response that is not ok.
\<close>

theorem fetchRemoteGraphqlSchema_ignores_status:
  assumes "net env (length (fetches (trace w))) (introspection_request env url tok) = Inr res"
  shows "(\<forall>e. json_body res = Inl e \<longrightarrow> fst (fetchRemoteGraphqlSchema env url tok w) = Inl e)
       \<and> (\<forall>kvs v. json_body res = Inr (JObj kvs) \<and> map_of kvs ''data'' = Some v \<longrightarrow>
              fst (fetchRemoteGraphqlSchema env url tok w) = Inr v)
       \<and> (\<forall>kvs. json_body res = Inr (JObj kvs) \<and> map_of kvs ''data'' = None \<longrightarrow>
              fst (fetchRemoteGraphqlSchema env url tok w) = Inr JUndefined)
       \<and> (\<forall>data. json_body res = Inr data \<and> (\<forall>kvs. data \<noteq> JObj kvs) \<longrightarrow>
              fst (fetchRemoteGraphqlSchema env url tok w) = Inr JUndefined)
       \<and> (\<not> ok res \<and> net env (length (fetches (trace w))) (status_request tok url) = Inr res \<longrightarrow>
              (\<exists>e. fst (request env tok url w) = Inl e))"
proof (intro conjI allI impI)
  note r = fetchRemote_apply [OF assms]
  {
    fix e
    assume "json_body res = Inl e"
    then show "fst (fetchRemoteGraphqlSchema env url tok w) = Inl e"
      using r by simp
  }
  {
    fix kvs v
    assume "json_body res = Inr (JObj kvs) \<and> map_of kvs ''data'' = Some v"
    then show "fst (fetchRemoteGraphqlSchema env url tok w) = Inr v"
      using r by (simp add: opt_member_def)
  }
  {
    fix kvs
    assume "json_body res = Inr (JObj kvs) \<and> map_of kvs ''data'' = None"
    then show "fst (fetchRemoteGraphqlSchema env url tok w) = Inr JUndefined"
      using r by (simp add: opt_member_def)
  }
  {
    fix data
    assume "json_body res = Inr data \<and> (\<forall>kvs. data \<noteq> JObj kvs)"
    then show "fst (fetchRemoteGraphqlSchema env url tok w) = Inr JUndefined"
      using r by (cases data) (simp_all add: opt_member_def)
  }
  assume "\<not> ok res \<and> net env (length (fetches (trace w))) (status_request tok url) = Inr res"
  then show "\<exists>e. fst (request env tok url w) = Inl e"
    using request_not_ok_throws by blast
qed

theorem fetchRemoteGraphqlSchema_ignores_status_witness:
  "(\<not> ok data_response \<and> json_body data_response = Inr (JObj [(''data'', JStr ''partial'')]))
   \<and> fst (fetchRemoteGraphqlSchema (sample_env (\<lambda>n rq. Inr data_response))
            sample_apiURL (Some ''secret'') fresh) = Inr (JStr ''partial'')
   \<and> (\<not> ok server_error_response
        \<and> json_body server_error_response = Inr (JObj [(''message'', JStr ''boom'')]))
   \<and> fst (fetchRemoteGraphqlSchema (sample_env (\<lambda>n rq. Inr server_error_response))
            sample_apiURL (Some ''secret'') fresh) = Inr JUndefined
   \<and> json_body unauthorized_response = Inr JNull
   \<and> fst (fetchRemoteGraphqlSchema (sample_env (\<lambda>n rq. Inr unauthorized_response))
            sample_apiURL (Some ''secret'') fresh) = Inr JUndefined
   \<and> json_body bad_gateway_response = Inl (Error ''invalid json response body'')
   \<and> fst (fetchRemoteGraphqlSchema (sample_env (\<lambda>n rq. Inr bad_gateway_response))
            sample_apiURL (Some ''secret'') fresh) = Inl (Error ''invalid json response body'')
   \<and> (\<exists>e. fst (request (sample_env (\<lambda>n rq. Inr data_response)) (Some ''secret'')
              sample_apiURL fresh) = Inl e)"
proof -
  have net: "net (sample_env (\<lambda>n rq. Inr r)) n rq = Inr r" for r n rq
    by (simp add: sample_env_def)
  have b1: "json_body data_response = Inr (JObj [(''data'', JStr ''partial'')])"
    and n1: "\<not> ok data_response"
    by (simp_all add: data_response_def)
  have b2: "json_body server_error_response = Inr (JObj [(''message'', JStr ''boom'')])"
    and n2: "\<not> ok server_error_response"
    by (simp_all add: server_error_response_def)
  have b3: "json_body unauthorized_response = Inr JNull"
    by (simp add: unauthorized_response_def)
  have b4: "json_body bad_gateway_response = Inl (Error ''invalid json response body'')"
    by (simp add: bad_gateway_response_def)
  have present: "map_of [(''data'', JStr ''partial'')] ''data'' = Some (JStr ''partial'')"
    and absent: "map_of [(''message'', JStr ''boom'')] ''data'' = None"
    and no_object: "\<forall>kvs. JNull \<noteq> JObj kvs"
    by simp_all
  note t = fetchRemoteGraphqlSchema_ignores_status [OF net]
  have "fst (fetchRemoteGraphqlSchema (sample_env (\<lambda>n rq. Inr data_response))
            sample_apiURL (Some ''secret'') fresh) = Inr (JStr ''partial'')"
    using t [THEN conjunct2, THEN conjunct1] b1 present by blast
  moreover have "fst (fetchRemoteGraphqlSchema (sample_env (\<lambda>n rq. Inr server_error_response))
            sample_apiURL (Some ''secret'') fresh) = Inr JUndefined"
    using t [THEN conjunct2, THEN conjunct2, THEN conjunct1] b2 absent by blast
  moreover have "fst (fetchRemoteGraphqlSchema (sample_env (\<lambda>n rq. Inr unauthorized_response))
            sample_apiURL (Some ''secret'') fresh) = Inr JUndefined"
    using t [THEN conjunct2, THEN conjunct2, THEN conjunct2, THEN conjunct1] b3 no_object by blast
  moreover have "fst (fetchRemoteGraphqlSchema (sample_env (\<lambda>n rq. Inr bad_gateway_response))
            sample_apiURL (Some ''secret'') fresh) = Inl (Error ''invalid json response body'')"
    using t [THEN conjunct1] b4 by blast
  moreover have "\<exists>e. fst (request (sample_env (\<lambda>n rq. Inr data_response)) (Some ''secret'')
              sample_apiURL fresh) = Inl e"
    using t [THEN conjunct2, THEN conjunct2, THEN conjunct2, THEN conjunct2] n1 net by blast
  ultimately show ?thesis
    using b1 n1 b2 n2 b3 b4 by blast
qed

text \<open>
  Claim C8 as stated fails on a 502 answer whose body is no JSON: \<^verbatim>\<open>res.json()\<close> throws and
  \<^verbatim>\<open>fetchRemoteGraphqlSchema\<close> with it.
\<close>

theorem fetchRemoteGraphqlSchema_throws_counterexample:
  "\<not> ok bad_gateway_response
   \<and> fst (fetchRemoteGraphqlSchema (sample_env (net_of_list [bad_gateway_response]))
            sample_apiURL (Some ''secret'') fresh) = Inl (Error ''invalid json response body'')"
  by (simp add: fetchRemoteGraphqlSchema_def bind_io_def fetch_def throw_io_def sample_env_def
        net_of_list_def fresh_def fetches_def bad_gateway_response_def)

subsection \<open>Quiet actions\<close>

lemma fetches_append [simp]: "fetches (xs @ ys) = fetches xs @ fetches ys"
  by (simp add: fetches_def)

lemma fetches_Nil [simp]: "fetches [] = []"
  by (simp add: fetches_def)

lemma fetches_Cons_Fetch [simp]: "fetches (Fetch rq # evs) = rq # fetches evs"
  by (simp add: fetches_def)

lemma fetches_Cons_other [simp]: "\<not> is_fetch ev \<Longrightarrow> fetches (ev # evs) = fetches evs"
  by (cases ev) (simp_all add: fetches_def)

lemma vis_append [simp]: "vis (xs @ ys) = vis xs @ vis ys"
  by (simp add: vis_def)

lemma vis_Nil [simp]: "vis [] = []"
  by (simp add: vis_def)

lemma vis_Cons [simp]: "vis (ev # evs) = (if visible ev then ev # vis evs else vis evs)"
  by (simp add: vis_def)

lemma quietI:
  assumes "\<And>w. \<exists>evs. snd (m w) = w\<lparr>trace := trace w @ evs\<rparr> \<and> vis evs = [] \<and> set (fetches evs) \<subseteq> R"
  shows "quiet R m"
  using assms by (simp add: quiet_def)

lemma quietD:
  assumes "quiet R m"
  obtains evs where "snd (m w) = w\<lparr>trace := trace w @ evs\<rparr>" "vis evs = []" "set (fetches evs) \<subseteq> R"
  using assms unfolding quiet_def by blast

lemma quiet_return: "quiet R (return_io x)"
  by (rule quietI, rule exI [of _ "[]"]) (simp add: return_io_def)

lemma quiet_throw: "quiet R (throw_io e)"
  by (rule quietI, rule exI [of _ "[]"]) (simp add: throw_io_def)

lemma quiet_ext: "quiet R (ext r)"
  by (rule quietI, rule exI [of _ "[]"]) (simp add: ext_def)

lemma quiet_emit: "\<not> visible ev \<Longrightarrow> \<not> is_fetch ev \<Longrightarrow> quiet R (emit ev)"
  by (rule quietI, rule exI [of _ "[ev]"]) (simp add: emit_def)

lemma quiet_fetch: "rq \<in> R \<Longrightarrow> quiet R (fetch env rq)"
  by (rule quietI, rule exI [of _ "[Fetch rq]"]) (simp add: fetch_def)

lemma quiet_bind:
  assumes m: "quiet R m" and f: "\<And>x. quiet R (f x)"
  shows "quiet R (bind_io m f)"
proof (rule quietI)
  fix w
  obtain e1 where e1: "snd (m w) = w\<lparr>trace := trace w @ e1\<rparr>" "vis e1 = []" "set (fetches e1) \<subseteq> R"
    using m by (rule quietD)
  show "\<exists>evs. snd (bind_io m f w) = w\<lparr>trace := trace w @ evs\<rparr> \<and> vis evs = [] \<and> set (fetches evs) \<subseteq> R"
  proof (cases "fst (m w)")
    case (Inl e)
    then have "snd (bind_io m f w) = snd (m w)"
      by (cases "m w") (simp add: bind_io_def)
    then show ?thesis using e1 by auto
  next
    case (Inr x)
    then have b: "bind_io m f w = f x (snd (m w))"
      by (cases "m w") (simp add: bind_io_def)
    obtain e2 where e2: "snd (f x (snd (m w))) = (snd (m w))\<lparr>trace := trace (snd (m w)) @ e2\<rparr>"
        "vis e2 = []" "set (fetches e2) \<subseteq> R"
      using f by (rule quietD)
    have "snd (bind_io m f w) = w\<lparr>trace := trace w @ (e1 @ e2)\<rparr>"
      using b e1(1) e2(1) by simp
    moreover have "vis (e1 @ e2) = []" "set (fetches (e1 @ e2)) \<subseteq> R"
      using e1 e2 by simp_all
    ultimately show ?thesis by blast
  qed
qed

lemma quiet_try_catch:
  assumes m: "quiet R m" and h: "\<And>e. quiet R (h e)"
  shows "quiet R (try_catch m h)"
proof (rule quietI)
  fix w
  obtain e1 where e1: "snd (m w) = w\<lparr>trace := trace w @ e1\<rparr>" "vis e1 = []" "set (fetches e1) \<subseteq> R"
    using m by (rule quietD)
  show "\<exists>evs. snd (try_catch m h w) = w\<lparr>trace := trace w @ evs\<rparr> \<and> vis evs = [] \<and> set (fetches evs) \<subseteq> R"
  proof (cases "fst (m w)")
    case (Inr x)
    then have "snd (try_catch m h w) = snd (m w)"
      by (cases "m w") (simp add: try_catch_def)
    then show ?thesis using e1 by auto
  next
    case (Inl e)
    then have b: "try_catch m h w = h e (snd (m w))"
      by (cases "m w") (simp add: try_catch_def)
    obtain e2 where e2: "snd (h e (snd (m w))) = (snd (m w))\<lparr>trace := trace (snd (m w)) @ e2\<rparr>"
        "vis e2 = []" "set (fetches e2) \<subseteq> R"
      using h by (rule quietD)
    have "snd (try_catch m h w) = w\<lparr>trace := trace w @ (e1 @ e2)\<rparr>"
      using b e1(1) e2(1) by simp
    moreover have "vis (e1 @ e2) = []" "set (fetches (e1 @ e2)) \<subseteq> R"
      using e1 e2 by simp_all
    ultimately show ?thesis by blast
  qed
qed

lemma bind_ext_Inr: "bind_io (ext (Inr x)) f = f x"
  by (rule ext) (simp add: bind_io_def ext_def)

lemma bind_ext_Inl: "bind_io (ext (Inl e)) f = throw_io e"
  by (rule ext) (simp add: bind_io_def ext_def throw_io_def)

declare poll_loop.simps [simp del]

lemma quiet_request: "quiet {status_request tok url} (request env tok url)"
  unfolding request_def
  by (intro quiet_bind quiet_fetch)
     (auto simp add: quiet_throw quiet_return split: sum.splits)

lemma quiet_sleepAndCallFunc: "quiet R fn \<Longrightarrow> quiet R (sleepAndCallFunc fn ms)"
  unfolding sleepAndCallFunc_def
  by (intro quiet_bind quiet_emit) simp_all

lemma quiet_poll_fn: "quiet {status_request tok url} (poll_fn env c tok url i)"
  unfolding poll_fn_def
  by (intro quiet_bind quiet_request)
     (auto intro!: quiet_bind quiet_emit quiet_return quiet_throw split: sum.splits)

lemma quiet_poll_loop: "quiet {status_request tok url} (poll_loop env c tok url i)"
proof (induction env c tok url i rule: poll_loop.induct)
  case (1 env c tok url i)
  show ?case
  proof (cases "i \<le> 5")
    case True
    have "quiet {status_request tok url}
            (bind_io (sleepAndCallFunc (poll_fn env c tok url i) 5000)
               (\<lambda>_. poll_loop env c tok url (i + 1)))"
      using True 1 by (intro quiet_bind quiet_sleepAndCallFunc quiet_poll_fn)
    then show ?thesis using True by (subst poll_loop.simps) simp
  next
    case False
    then show ?thesis by (subst poll_loop.simps) (simp add: quiet_return)
  qed
qed

lemma quiet_check_status:
  "quiet {status_request (token cfg) url} (check_status env c cfg p url)"
  unfolding check_status_def
  by (intro quiet_bind quiet_try_catch quiet_request quiet_emit quiet_return quiet_throw)
     (auto intro!: quiet_bind quiet_emit quiet_throw quiet_poll_loop quiet_ext)

lemma quiet_checkClientInfo: "quiet UNIV (checkClientInfo env c cfg apiURL)"
proof -
  have "quiet UNIV (check_status env c cfg p url)" for p url
    using quiet_check_status [of cfg url env c p] unfolding quiet_def by blast
  then show ?thesis
    unfolding checkClientInfo_def by (intro quiet_bind quiet_ext)
qed

lemma quiet_fetchRemoteGraphqlSchema:
  "quiet {introspection_request env url tok} (fetchRemoteGraphqlSchema env url tok)"
  unfolding fetchRemoteGraphqlSchema_def
  by (intro quiet_bind quiet_fetch)
     (auto simp add: quiet_throw quiet_return split: sum.splits)

lemma quiet_checkGraphqlSchema:
  "quiet {introspection_request env apiURL (token cfg)} (checkGraphqlSchema env cfg apiURL)"
  unfolding checkGraphqlSchema_def
  by (intro quiet_bind quiet_fetchRemoteGraphqlSchema quiet_ext)
     (auto intro!: quiet_bind quiet_emit quiet_throw)

subsection \<open>The requests and results of the two checks\<close>

lemma bind_io_world:
  assumes f: "\<And>x. quiet R (f x)"
  obtains evs where "snd (bind_io m f w) = (snd (m w))\<lparr>trace := trace (snd (m w)) @ evs\<rparr>"
    and "vis evs = []" and "set (fetches evs) \<subseteq> R"
proof (cases "fst (m w)")
  case (Inl e)
  then have "snd (bind_io m f w) = (snd (m w))\<lparr>trace := trace (snd (m w)) @ []\<rparr>"
    by (cases "m w") (simp add: bind_io_def)
  then show ?thesis using that [of "[]"] by simp
next
  case (Inr x)
  then have "bind_io m f w = f x (snd (m w))"
    by (cases "m w") (simp add: bind_io_def)
  then show ?thesis using quietD [OF f, of x "snd (m w)"] that by metis
qed

lemma try_catch_world:
  assumes h: "\<And>e. quiet R (h e)"
  obtains evs where "snd (try_catch m h w) = (snd (m w))\<lparr>trace := trace (snd (m w)) @ evs\<rparr>"
    and "vis evs = []" and "set (fetches evs) \<subseteq> R"
proof (cases "fst (m w)")
  case (Inr x)
  then have "snd (try_catch m h w) = (snd (m w))\<lparr>trace := trace (snd (m w)) @ []\<rparr>"
    by (cases "m w") (simp add: try_catch_def)
  then show ?thesis using that [of "[]"] by simp
next
  case (Inl e)
  then have "try_catch m h w = h e (snd (m w))"
    by (cases "m w") (simp add: try_catch_def)
  then show ?thesis using quietD [OF h, of e "snd (m w)"] that by metis
qed

lemma request_world:
  "snd (request env tok url w) = w\<lparr>trace := trace w @ [Fetch (status_request tok url)]\<rparr>"
  by (simp add: request_def bind_io_def fetch_def throw_io_def return_io_def
        split: sum.splits)

lemma fetchRemote_world:
  "snd (fetchRemoteGraphqlSchema env url tok w) =
     w\<lparr>trace := trace w @ [Fetch (introspection_request env url tok)]\<rparr>"
  by (simp add: fetchRemoteGraphqlSchema_def bind_io_def fetch_def throw_io_def return_io_def
        split: sum.splits)

lemma check_status_world:
  "\<exists>evs. snd (check_status env c cfg p url w) =
             w\<lparr>trace := trace w @ Fetch (status_request (token cfg) url) # evs\<rparr>
           \<and> vis evs = []
           \<and> set (fetches evs) \<subseteq> {status_request (token cfg) url}"
proof -
  let ?rq = "status_request (token cfg) url"
  let ?R = "{?rq}"
  define g where "g = (\<lambda>res :: status_result. bind_io (emit (Tick client_bar CheckMark))
                     (\<lambda>_. return_io (\<not> (res_status res = JStr ''unknown''))))"
  define h where "h = (\<lambda>e. bind_io
                      (emit (Summary ''Error when checking client information''
                               [(''You provided'',
                                 [(''clientId'', clientId cfg), (''token'', token cfg)])]))
                      (\<lambda>_. (throw_io e :: bool io)))"
  define k where "k = (\<lambda>branchKnown.
               if branchKnown then emit (Tick branch_bar CheckMark)
               else
                 bind_io (poll_loop env c (token cfg) url 0)
                   (\<lambda>_. bind_io (emit (Tick branch_bar CrossMark))
                      (\<lambda>_. bind_io (ext (not_on_cloud_log env p))
                         (\<lambda>msg. bind_io (emit (LogError msg))
                            (\<lambda>_. throw_io (Error ''Branch is not on Tina Cloud''))))))"
  have eq: "check_status env c cfg p url =
              bind_io (try_catch (bind_io (request env (token cfg) url) g) h) k"
    unfolding check_status_def g_def h_def k_def ..
  have qg: "quiet ?R (g x)" for x
    unfolding g_def by (intro quiet_bind quiet_emit quiet_return) simp_all
  have qh: "quiet ?R (h e)" for e
    unfolding h_def by (intro quiet_bind quiet_emit quiet_throw) simp_all
  have qk: "quiet ?R (k b)" for b
    unfolding k_def
    by (auto intro!: quiet_bind quiet_emit quiet_throw quiet_poll_loop quiet_ext)
  let ?m1 = "bind_io (request env (token cfg) url) g"
  let ?m2 = "try_catch ?m1 h"
  obtain e1 where e1: "snd (?m1 w) = (snd (request env (token cfg) url w))
        \<lparr>trace := trace (snd (request env (token cfg) url w)) @ e1\<rparr>"
      "vis e1 = []" "set (fetches e1) \<subseteq> ?R"
    using qg by (rule bind_io_world)
  obtain e2 where e2: "snd (?m2 w) = (snd (?m1 w))\<lparr>trace := trace (snd (?m1 w)) @ e2\<rparr>"
      "vis e2 = []" "set (fetches e2) \<subseteq> ?R"
    using qh by (rule try_catch_world)
  obtain e3 where e3: "snd (bind_io ?m2 k w) = (snd (?m2 w))\<lparr>trace := trace (snd (?m2 w)) @ e3\<rparr>"
      "vis e3 = []" "set (fetches e3) \<subseteq> ?R"
    using qk by (rule bind_io_world)
  have "snd (check_status env c cfg p url w) =
          w\<lparr>trace := trace w @ Fetch ?rq # (e1 @ e2 @ e3)\<rparr>"
    unfolding eq e3(1) e2(1) e1(1) request_world by simp
  moreover have "vis (e1 @ e2 @ e3) = []" "set (fetches (e1 @ e2 @ e3)) \<subseteq> ?R"
    using e1 e2 e3 by simp_all
  ultimately show ?thesis by blast
qed

lemma checkClientInfo_world:
  assumes "parseURL env apiURL = Inr p" and "status_url p = Inr url"
  shows "\<exists>evs. snd (checkClientInfo env c cfg apiURL w) =
             w\<lparr>trace := trace w @ Fetch (status_request (token cfg) url) # evs\<rparr>
           \<and> vis evs = []
           \<and> set (fetches evs) \<subseteq> {status_request (token cfg) url}"
  unfolding checkClientInfo_def assms bind_ext_Inr by (rule check_status_world)

lemma checkGraphqlSchema_one_fetch:
  "fetches (trace (snd (checkGraphqlSchema env cfg apiURL w))) =
     fetches (trace w) @ [introspection_request env apiURL (token cfg)]"
proof -
  define rest where "rest = (\<lambda>remoteSchema.
     bind_io (ext (buildClientSchema env remoteSchema))
       (\<lambda>remoteGqlSchema.
     bind_io (ext (getGraphQLSchemaFromBridge env))
       (\<lambda>localSchemaDocument.
     bind_io (ext (buildASTSchema env localSchemaDocument))
       (\<lambda>localGraphqlSchema.
     bind_io (ext (diff env localGraphqlSchema remoteGqlSchema))
       (\<lambda>diffResult.
          if length diffResult = 0 then emit (Tick schema_bar CheckMark)
          else bind_io (emit (Tick schema_bar CrossMark))
                 (\<lambda>_. throw_io (Error (mismatch_message cfg))))))))"
  have eq: "checkGraphqlSchema env cfg apiURL =
              bind_io (fetchRemoteGraphqlSchema env apiURL (token cfg)) rest"
    unfolding checkGraphqlSchema_def rest_def ..
  have q: "quiet {} (rest x)" for x
    unfolding rest_def
    by (intro quiet_bind quiet_ext) (auto intro!: quiet_bind quiet_emit quiet_throw)
  obtain evs where evs: "snd (bind_io (fetchRemoteGraphqlSchema env apiURL (token cfg)) rest w) =
        (snd (fetchRemoteGraphqlSchema env apiURL (token cfg) w))
          \<lparr>trace := trace (snd (fetchRemoteGraphqlSchema env apiURL (token cfg) w)) @ evs\<rparr>"
      "set (fetches evs) \<subseteq> {}"
    using q by (rule bind_io_world)
  then have "fetches evs = []" by simp
  then show ?thesis
    unfolding eq evs(1) fetchRemote_world by simp
qed




text \<open>
  Claim C5: when \<^verbatim>\<open>parseURL\<close> yields host, client id and branch and a token is configured,
  \<^verbatim>\<open>checkClientInfo\<close> starts with a GET to \<^verbatim>\<open>https://{host}/db/{clientId}/status/{branch}\<close>
  that carries the token in the \<^verbatim>\<open>X-API-KEY\<close> header, and every request it sends is that one;
  \<^verbatim>\<open>checkGraphqlSchema\<close> sends one request, a POST of the introspection query to the API URL.
\<close>

theorem status_and_introspection_requests:
  assumes "parseURL env apiURL = Inr p"
      and "url_host p = JStr host" and "url_clientId p = JStr cid" and "url_branch p = JStr br"
      and "token cfg = Some t" and "t \<noteq> []"
  shows "(\<exists>rq evs.
            snd (checkClientInfo env c cfg apiURL w) = w\<lparr>trace := trace w @ Fetch rq # evs\<rparr>
          \<and> set (fetches evs) \<subseteq> {rq}
          \<and> req_method rq = ''GET''
          \<and> req_url rq = ''https://'' @ host @ ''/db/'' @ cid @ ''/status/'' @ br
          \<and> (''X-API-KEY'', t) \<in> set (req_headers rq))
       \<and> (\<exists>rq. fetches (trace (snd (checkGraphqlSchema env cfg apiURL w))) = fetches (trace w) @ [rq]
          \<and> req_method rq = ''POST''
          \<and> req_url rq = apiURL
          \<and> req_body rq =
              Some (JSON_stringify env
                      (JObj [(''query'', JStr (getIntrospectionQuery env)), (''variables'', JObj [])]))
          \<and> (''X-API-KEY'', t) \<in> set (req_headers rq))"
proof (rule conjI)
  let ?url = "''https://'' @ host @ ''/db/'' @ cid @ ''/status/'' @ br"
  let ?rq = "status_request (token cfg) ?url"
  have url: "status_url p = Inr ?url"
    using assms by (simp add: status_url_def)
  obtain evs where evs: "snd (checkClientInfo env c cfg apiURL w) = w\<lparr>trace := trace w @ Fetch ?rq # evs\<rparr>"
      "set (fetches evs) \<subseteq> {?rq}"
    using checkClientInfo_world [OF assms(1) url] by blast
  have "req_method ?rq = ''GET''"
    by (simp add: status_request_def)
  moreover have "req_url ?rq = ''https://'' @ host @ ''/db/'' @ cid @ ''/status/'' @ br"
    by (simp add: status_request_def)
  moreover have "(''X-API-KEY'', t) \<in> set (req_headers ?rq)"
    using assms by (simp add: status_request_def api_headers_def)
  ultimately show "\<exists>rq evs.
            snd (checkClientInfo env c cfg apiURL w) = w\<lparr>trace := trace w @ Fetch rq # evs\<rparr>
          \<and> set (fetches evs) \<subseteq> {rq}
          \<and> req_method rq = ''GET''
          \<and> req_url rq = ''https://'' @ host @ ''/db/'' @ cid @ ''/status/'' @ br
          \<and> (''X-API-KEY'', t) \<in> set (req_headers rq)"
    using evs by blast
next
  let ?rq = "introspection_request env apiURL (token cfg)"
  have "req_method ?rq = ''POST''" "req_url ?rq = apiURL"
    "req_body ?rq =
       Some (JSON_stringify env
               (JObj [(''query'', JStr (getIntrospectionQuery env)), (''variables'', JObj [])]))"
    "(''X-API-KEY'', t) \<in> set (req_headers ?rq)"
    using assms by (simp_all add: introspection_request_def api_headers_def)
  then show "\<exists>rq. fetches (trace (snd (checkGraphqlSchema env cfg apiURL w))) = fetches (trace w) @ [rq]
          \<and> req_method rq = ''POST''
          \<and> req_url rq = apiURL
          \<and> req_body rq =
              Some (JSON_stringify env
                      (JObj [(''query'', JStr (getIntrospectionQuery env)), (''variables'', JObj [])]))
          \<and> (''X-API-KEY'', t) \<in> set (req_headers rq)"
    using checkGraphqlSchema_one_fetch [of env cfg apiURL w] by blast
qed

theorem status_and_introspection_requests_witness:
  "(\<exists>rq evs.
      snd (checkClientInfo (sample_env (net_of_list [])) no_flags sample_config sample_apiURL fresh) =
        fresh\<lparr>trace := trace fresh @ Fetch rq # evs\<rparr>
    \<and> set (fetches evs) \<subseteq> {rq}
    \<and> req_method rq = ''GET''
    \<and> req_url rq = ''https://content.tinajs.io/db/abc123/status/main''
    \<and> (''X-API-KEY'', ''secret'') \<in> set (req_headers rq))
   \<and> (\<exists>rq. fetches (trace (snd (checkGraphqlSchema (sample_env (net_of_list [])) sample_config
                                   sample_apiURL fresh))) = fetches (trace fresh) @ [rq]
          \<and> req_method rq = ''POST''
          \<and> req_url rq = sample_apiURL)"
proof -
  have p: "parseURL (sample_env (net_of_list [])) sample_apiURL = Inr sample_url"
    by (simp add: sample_env_def)
  have u: "url_host sample_url = JStr ''content.tinajs.io''"
    "url_clientId sample_url = JStr ''abc123''" "url_branch sample_url = JStr ''main''"
    by (simp_all add: sample_url_def)
  have t: "token sample_config = Some ''secret''" "''secret'' \<noteq> []"
    by (simp_all add: sample_config_def)
  note inst = status_and_introspection_requests [OF p u t, of no_flags fresh]
  from inst [THEN conjunct1] have first: "\<exists>rq evs.
      snd (checkClientInfo (sample_env (net_of_list [])) no_flags sample_config sample_apiURL fresh) =
        fresh\<lparr>trace := trace fresh @ Fetch rq # evs\<rparr>
    \<and> set (fetches evs) \<subseteq> {rq}
    \<and> req_method rq = ''GET''
    \<and> req_url rq = ''https://content.tinajs.io/db/abc123/status/main''
    \<and> (''X-API-KEY'', ''secret'') \<in> set (req_headers rq)"
    by simp
  from inst [THEN conjunct2] have second: "\<exists>rq. fetches (trace (snd (checkGraphqlSchema
      (sample_env (net_of_list [])) sample_config sample_apiURL fresh))) = fetches (trace fresh) @ [rq]
          \<and> req_method rq = ''POST''
          \<and> req_url rq = sample_apiURL"
    by blast
  from first second show ?thesis by (rule conjI)
qed

subsection \<open>Stable actions\<close>

text \<open>
  The world is read in one place only, where \<^verbatim>\<open>fetch\<close> asks the network for the answer
  to the next request. So what the two checks return depends on the world only through the
  number of requests sent so far.
\<close>

lemma bind_io_Inl: "fst (m w) = Inl e \<Longrightarrow> bind_io m f w = (Inl e, snd (m w))"
  by (cases "m w") (simp add: bind_io_def)

lemma bind_io_Inr: "fst (m w) = Inr x \<Longrightarrow> bind_io m f w = f x (snd (m w))"
  by (cases "m w") (simp add: bind_io_def)

lemma try_catch_Inl: "fst (m w) = Inl e \<Longrightarrow> try_catch m h w = h e (snd (m w))"
  by (cases "m w") (simp add: try_catch_def)

lemma try_catch_Inr: "fst (m w) = Inr x \<Longrightarrow> try_catch m h w = (Inr x, snd (m w))"
  by (cases "m w") (simp add: try_catch_def)

lemma stableI:
  assumes "\<And>v w. length (fetches (trace v)) = length (fetches (trace w)) \<Longrightarrow>
             fst (m v) = fst (m w) \<and>
             length (fetches (trace (snd (m v)))) = length (fetches (trace (snd (m w))))"
  shows "stable m"
  unfolding stable_def using assms by blast

lemma stableD:
  assumes "stable m" and "length (fetches (trace v)) = length (fetches (trace w))"
  shows "fst (m v) = fst (m w)"
    and "length (fetches (trace (snd (m v)))) = length (fetches (trace (snd (m w))))"
  using assms unfolding stable_def by blast+

lemma stable_return: "stable (return_io x)"
  by (simp add: stable_def return_io_def)

lemma stable_throw: "stable (throw_io e)"
  by (simp add: stable_def throw_io_def)

lemma stable_ext: "stable (ext r)"
  by (simp add: stable_def ext_def)

lemma stable_emit: "stable (emit ev)"
  by (simp add: stable_def emit_def)

lemma stable_fetch: "stable (fetch env rq)"
  by (simp add: stable_def fetch_def)

lemma stable_bind:
  assumes m: "stable m" and f: "\<And>x. stable (f x)"
  shows "stable (bind_io m f)"
proof (rule stableI)
  fix v w :: world
  assume eq: "length (fetches (trace v)) = length (fetches (trace w))"
  note r = stableD [OF m eq]
  show "fst (bind_io m f v) = fst (bind_io m f w) \<and>
        length (fetches (trace (snd (bind_io m f v)))) =
        length (fetches (trace (snd (bind_io m f w))))"
  proof (cases "fst (m v)")
    case (Inl e)
    then have "fst (m w) = Inl e" using r(1) by simp
    then have b: "bind_io m f w = (Inl e, snd (m w))"
      by (rule bind_io_Inl)
    have a: "bind_io m f v = (Inl e, snd (m v))"
      using Inl by (rule bind_io_Inl)
    show ?thesis
      unfolding a b using r(2) by simp
  next
    case (Inr x)
    then have "fst (m w) = Inr x" using r(1) by simp
    then have b: "bind_io m f w = f x (snd (m w))"
      by (rule bind_io_Inr)
    have a: "bind_io m f v = f x (snd (m v))"
      using Inr by (rule bind_io_Inr)
    show ?thesis
      unfolding a b using stableD [OF f r(2)] by blast
  qed
qed

lemma stable_try_catch:
  assumes m: "stable m" and h: "\<And>e. stable (h e)"
  shows "stable (try_catch m h)"
proof (rule stableI)
  fix v w :: world
  assume eq: "length (fetches (trace v)) = length (fetches (trace w))"
  note r = stableD [OF m eq]
  show "fst (try_catch m h v) = fst (try_catch m h w) \<and>
        length (fetches (trace (snd (try_catch m h v)))) =
        length (fetches (trace (snd (try_catch m h w))))"
  proof (cases "fst (m v)")
    case (Inr x)
    then have "fst (m w) = Inr x" using r(1) by simp
    then have b: "try_catch m h w = (Inr x, snd (m w))"
      by (rule try_catch_Inr)
    have a: "try_catch m h v = (Inr x, snd (m v))"
      using Inr by (rule try_catch_Inr)
    show ?thesis
      unfolding a b using r(2) by simp
  next
    case (Inl e)
    then have "fst (m w) = Inl e" using r(1) by simp
    then have b: "try_catch m h w = h e (snd (m w))"
      by (rule try_catch_Inl)
    have a: "try_catch m h v = h e (snd (m v))"
      using Inl by (rule try_catch_Inl)
    show ?thesis
      unfolding a b using stableD [OF h r(2)] by blast
  qed
qed

lemma stable_request: "stable (request env tok url)"
  unfolding request_def
  by (intro stable_bind stable_fetch)
     (auto simp add: stable_throw stable_return split: sum.splits)

lemma stable_sleepAndCallFunc: "stable fn \<Longrightarrow> stable (sleepAndCallFunc fn ms)"
  unfolding sleepAndCallFunc_def
  by (intro stable_bind stable_emit) simp_all

lemma stable_poll_fn: "stable (poll_fn env c tok url i)"
  unfolding poll_fn_def
  by (intro stable_bind stable_request)
     (auto intro!: stable_bind stable_emit stable_return stable_throw split: sum.splits)

lemma stable_poll_loop: "stable (poll_loop env c tok url i)"
proof (induction env c tok url i rule: poll_loop.induct)
  case (1 env c tok url i)
  show ?case
  proof (cases "i \<le> 5")
    case True
    have "stable (bind_io (sleepAndCallFunc (poll_fn env c tok url i) 5000)
                    (\<lambda>_. poll_loop env c tok url (i + 1)))"
      using True 1 by (intro stable_bind stable_sleepAndCallFunc stable_poll_fn)
    then show ?thesis using True by (subst poll_loop.simps) simp
  next
    case False
    then show ?thesis by (subst poll_loop.simps) (simp add: stable_return)
  qed
qed

lemma stable_check_status: "stable (check_status env c cfg p url)"
  unfolding check_status_def
  by (intro stable_bind stable_try_catch stable_request stable_emit stable_return stable_throw)
     (auto intro!: stable_bind stable_emit stable_throw stable_poll_loop stable_ext)

lemma stable_checkClientInfo: "stable (checkClientInfo env c cfg apiURL)"
  unfolding checkClientInfo_def
  by (intro stable_bind stable_ext stable_check_status)

lemma stable_fetchRemoteGraphqlSchema: "stable (fetchRemoteGraphqlSchema env url tok)"
  unfolding fetchRemoteGraphqlSchema_def
  by (intro stable_bind stable_fetch)
     (auto simp add: stable_throw stable_return split: sum.splits)

lemma stable_checkGraphqlSchema: "stable (checkGraphqlSchema env cfg apiURL)"
  unfolding checkGraphqlSchema_def
  by (intro stable_bind stable_fetchRemoteGraphqlSchema stable_ext)
     (auto intro!: stable_bind stable_emit stable_throw)

subsection \<open>The steps of \<^verbatim>\<open>execute\<close>\<close>

lemma expected_all:
  "list_all (returns env c w) ss \<Longrightarrow> expected env c w ss = success env c ss"
  by (induction ss) (simp_all add: success_def)

lemma expected_fail:
  "\<not> list_all (returns env c w) ss \<Longrightarrow> expected env c w ss \<in> set (failures env c ss)"
  by (induction ss) (auto simp add: expected_all)

lemma follows_emit: "\<not> visible ev \<Longrightarrow> follows env c w [] (emit ev) v"
  unfolding follows_def by (rule exI [of _ "[ev]"]) (simp add: emit_def)

lemma follows_step:
  assumes w1: "snd (m (v\<lparr>trace := trace v @ [Started s]\<rparr>)) =
                 v\<lparr>trace := trace v @ Started s # e1,
                   files := foldl write_event (files v) (vis e1)\<rparr>"
      and r: "isOK (fst (m (v\<lparr>trace := trace v @ [Started s]\<rparr>))) = returns env c w s"
      and ok: "returns env c w s \<Longrightarrow> Started s # vis e1 @ [Completed s] = ok_vis env c s"
      and fl: "\<not> returns env c w s \<Longrightarrow> Started s # vis e1 = fail_vis env c s"
      and f: "\<And>x. fst (m (v\<lparr>trace := trace v @ [Started s]\<rparr>)) = Inr x \<Longrightarrow>
                follows env c w ts (f x)
                  (v\<lparr>trace := trace v @ Started s # e1 @ [Completed s],
                     files := foldl write_event (files v) (vis e1)\<rparr>)"
  shows "follows env c w (s # ts) (bind_io (step_io s m) f) v"
proof (cases "fst (m (v\<lparr>trace := trace v @ [Started s]\<rparr>))")
  case (Inl e)
  let ?v0 = "v\<lparr>trace := trace v @ [Started s]\<rparr>"
  have nr: "\<not> returns env c w s"
    using r Inl by simp
  have "step_io s m v = (Inl e, snd (m ?v0))"
    using Inl by (cases "m ?v0") (simp add: step_io_def bind_io_def emit_def)
  then have b: "bind_io (step_io s m) f v = (Inl e, snd (m ?v0))"
    by (simp add: bind_io_def)
  have "snd (bind_io (step_io s m) f v) =
          v\<lparr>trace := trace v @ Started s # e1,
            files := foldl write_event (files v) (vis (Started s # e1))\<rparr>"
    unfolding b using w1 by simp
  moreover have "vis (Started s # e1) = expected env c w (s # ts)"
    using fl [OF nr] nr by simp
  moreover have "isOK (fst (bind_io (step_io s m) f v)) \<longleftrightarrow> list_all (returns env c w) (s # ts)"
    unfolding b using nr by simp
  ultimately show ?thesis
    unfolding follows_def by blast
next
  case (Inr x)
  let ?v0 = "v\<lparr>trace := trace v @ [Started s]\<rparr>"
  have yes: "returns env c w s"
    using r Inr by simp
  let ?v1 = "v\<lparr>trace := trace v @ Started s # e1 @ [Completed s],
               files := foldl write_event (files v) (vis e1)\<rparr>"
  have "step_io s m v = (Inr x, (snd (m ?v0))\<lparr>trace := trace (snd (m ?v0)) @ [Completed s]\<rparr>)"
    using Inr by (cases "m ?v0") (simp add: step_io_def bind_io_def emit_def return_io_def)
  then have "step_io s m v = (Inr x, ?v1)"
    unfolding w1 by simp
  then have b: "bind_io (step_io s m) f v = f x ?v1"
    by (simp add: bind_io_def)
  obtain e2 where e2:
    "snd (f x ?v1) = ?v1\<lparr>trace := trace ?v1 @ e2, files := foldl write_event (files ?v1) (vis e2)\<rparr>"
    "vis e2 = expected env c w ts"
    "isOK (fst (f x ?v1)) \<longleftrightarrow> list_all (returns env c w) ts"
    using f [OF Inr] unfolding follows_def by blast
  have vs: "vis (Started s # e1 @ Completed s # e2) = ok_vis env c s @ expected env c w ts"
    using ok [OF yes] e2(2) by simp
  have fs: "foldl write_event (files v) (vis (Started s # e1 @ Completed s # e2)) =
            foldl write_event (foldl write_event (files v) (vis e1)) (vis e2)"
    by simp
  have "snd (bind_io (step_io s m) f v) =
          v\<lparr>trace := trace v @ Started s # e1 @ Completed s # e2,
            files := foldl write_event (files v) (vis (Started s # e1 @ Completed s # e2))\<rparr>"
    unfolding fs b e2(1) by simp
  moreover have "isOK (fst (bind_io (step_io s m) f v)) \<longleftrightarrow> list_all (returns env c w) (s # ts)"
    using e2(3) yes by (simp add: b)
  moreover have "vis (Started s # e1 @ Completed s # e2) = expected env c w (s # ts)"
    using vs yes by simp
  ultimately show ?thesis
    unfolding follows_def by blast
qed

lemma follows_ext_step:
  assumes s: "s \<noteq> CreateDBServer" "s \<noteq> OutputGitignore"
      and r: "isOK r = returns env c w s"
      and f: "\<And>x v'. r = Inr x \<Longrightarrow>
                length (fetches (trace v')) = length (fetches (trace v)) \<Longrightarrow>
                follows env c w ts (f x) v'"
  shows "follows env c w (s # ts) (bind_io (step_io s (ext r)) f) v"
proof (rule follows_step [where ?e1.0 = "[]"])
  let ?v0 = "v\<lparr>trace := trace v @ [Started s]\<rparr>"
  show "snd (ext r ?v0) =
          v\<lparr>trace := trace v @ Started s # [], files := foldl write_event (files v) (vis [])\<rparr>"
    by (simp add: ext_def)
  show "isOK (fst (ext r ?v0)) = returns env c w s"
    using r by (simp add: ext_def)
  show "Started s # vis [] @ [Completed s] = ok_vis env c s"
    using s by (cases s) simp_all
  show "Started s # vis [] = fail_vis env c s"
    using s by (cases s) simp_all
  fix x
  assume "fst (ext r ?v0) = Inr x"
  then have "r = Inr x" by (simp add: ext_def)
  then show "follows env c w ts (f x)
               (v\<lparr>trace := trace v @ Started s # [] @ [Completed s],
                  files := foldl write_event (files v) (vis [])\<rparr>)"
    by (rule f) simp
qed

lemma follows_check_step:
  assumes q: "quiet R m" and st: "stable m"
      and s: "s \<noteq> CreateDBServer" "s \<noteq> OutputGitignore"
      and n: "length (fetches (trace v)) = length (fetches (trace u))"
      and r: "isOK (fst (m u)) = returns env c w s"
      and f: "\<And>x v'. length (fetches (trace v')) = length (fetches (trace (snd (m u)))) \<Longrightarrow>
                follows env c w ts (f x) v'"
  shows "follows env c w (s # ts) (bind_io (step_io s m) f) v"
proof -
  let ?v0 = "v\<lparr>trace := trace v @ [Started s]\<rparr>"
  have n0: "length (fetches (trace ?v0)) = length (fetches (trace u))"
    using n by simp
  note same = stableD [OF st n0]
  obtain e1 where e1: "snd (m ?v0) = ?v0\<lparr>trace := trace ?v0 @ e1\<rparr>" "vis e1 = []"
    using quietD [OF q, where w = ?v0] by metis
  have w1: "snd (m ?v0) =
            v\<lparr>trace := trace v @ Started s # e1, files := foldl write_event (files v) (vis e1)\<rparr>"
    using e1 by simp
  have n1: "length (fetches (trace (snd (m u)))) = length (fetches (trace v)) + length (fetches e1)"
    using same(2) unfolding w1 by simp
  show ?thesis
  proof (rule follows_step [where ?e1.0 = e1])
    show "snd (m ?v0) =
            v\<lparr>trace := trace v @ Started s # e1, files := foldl write_event (files v) (vis e1)\<rparr>"
      by (rule w1)
    show "isOK (fst (m ?v0)) = returns env c w s"
      using r same(1) by simp
    show "Started s # vis e1 @ [Completed s] = ok_vis env c s"
      using s e1(2) by (cases s) simp_all
    show "Started s # vis e1 = fail_vis env c s"
      using s e1(2) by (cases s) simp_all
    fix x
    show "follows env c w ts (f x)
            (v\<lparr>trace := trace v @ Started s # e1 @ [Completed s],
               files := foldl write_event (files v) (vis e1)\<rparr>)"
      by (rule f) (simp add: n1)
  qed
qed

lemma follows_listen_step:
  assumes f: "\<And>x v'. length (fetches (trace v')) = length (fetches (trace v)) \<Longrightarrow>
                follows env c w ts (f x) v'"
  shows "follows env c w (CreateDBServer # ts)
           (bind_io (step_io CreateDBServer (listen env (Number (datalayerPort c)))) f) v"
proof (rule follows_step [where ?e1.0 = "[ListenOn (Number (datalayerPort c))]"])
  let ?p = "Number (datalayerPort c)"
  let ?v0 = "v\<lparr>trace := trace v @ [Started CreateDBServer]\<rparr>"
  show "snd (listen env ?p ?v0) =
          v\<lparr>trace := trace v @ Started CreateDBServer # [ListenOn ?p],
            files := foldl write_event (files v) (vis [ListenOn ?p])\<rparr>"
    by (cases "createDBServer env ?p") (simp_all add: listen_def bind_io_def emit_def ext_def)
  show "isOK (fst (listen env ?p ?v0)) = returns env c w CreateDBServer"
    by (cases "createDBServer env ?p") (simp_all add: listen_def bind_io_def emit_def ext_def)
  show "Started CreateDBServer # vis [ListenOn ?p] @ [Completed CreateDBServer] =
          ok_vis env c CreateDBServer"
    by simp
  show "Started CreateDBServer # vis [ListenOn ?p] = fail_vis env c CreateDBServer"
    by simp
  fix x
  show "follows env c w ts (f x)
          (v\<lparr>trace := trace v @ Started CreateDBServer # [ListenOn ?p] @ [Completed CreateDBServer],
             files := foldl write_event (files v) (vis [ListenOn ?p])\<rparr>)"
    by (rule f) simp
qed

lemma follows_gitignore_step:
  assumes f: "\<And>x v'. follows env c w ts (f x) v'"
  shows "follows env c w (OutputGitignore # ts)
           (bind_io (step_io OutputGitignore
                       (outputFile env (outputGitignorePath env) gitignore_content)) f) v"
proof (cases "outputFile_fails env (outputGitignorePath env)")
  case (Some e)
  show ?thesis
    by (rule follows_step [where ?e1.0 = "[]"])
       (simp_all add: outputFile_def Some f)
next
  case None
  show ?thesis
    by (rule follows_step
          [where ?e1.0 = "[OutputFile (outputGitignorePath env) gitignore_content]"])
       (simp_all add: outputFile_def None f)
qed

lemma follows_build_steps:
  assumes pc: "processConfig env = Inr cfg"
      and n: "length (fetches (trace v)) = length (fetches (trace w))"
  shows "follows env c w build_order (build_steps env c cfg) v"
  unfolding build_steps_def build_order_def
proof (rule follows_listen_step)
  fix x1 :: unit and v1 :: world
  assume n1: "length (fetches (trace v1)) = length (fetches (trace v))"
  show "follows env c w
          [CreateDatabase, BuildSchema, GetASTSchema, CodegenExecute, CheckClientInfo, WaitForDB,
           CheckGraphqlSchema, BuildProductionSpa, OutputGitignore]
          (bind_io (step_io CreateDatabase (ext (createAndInitializeDatabase env)))
             (\<lambda>_.
           bind_io (step_io BuildSchema (ext (buildSchema env)))
             (\<lambda>_.
           bind_io (step_io GetASTSchema (ext (getASTSchema env)))
             (\<lambda>_.
           bind_io (step_io CodegenExecute (ext (codegen_execute env)))
             (\<lambda>apiURL.
           bind_io (step_io CheckClientInfo (checkClientInfo env c cfg apiURL))
             (\<lambda>_.
           bind_io (step_io WaitForDB (ext (waitForDB env cfg apiURL False)))
             (\<lambda>_.
           bind_io (step_io CheckGraphqlSchema (checkGraphqlSchema env cfg apiURL))
             (\<lambda>_.
           bind_io (step_io BuildProductionSpa (ext (buildProductionSpa env apiURL)))
             (\<lambda>_.
           bind_io (step_io OutputGitignore
                      (outputFile env (outputGitignorePath env) gitignore_content))
             (\<lambda>_. emit (build_summary env apiURL)))))))))))
          v1"
  proof (intro follows_ext_step)
    fix x2 x3 x4 :: unit and v2 v3 v4 v5 :: world and apiURL :: string
    assume n5: "length (fetches (trace v5)) = length (fetches (trace v4))"
       "length (fetches (trace v4)) = length (fetches (trace v3))"
       "length (fetches (trace v3)) = length (fetches (trace v2))"
       "length (fetches (trace v2)) = length (fetches (trace v1))"
      and url: "codegen_execute env = Inr apiURL"
    have n5w: "length (fetches (trace v5)) = length (fetches (trace w))"
      using n5 n1 n by simp
    let ?u = "snd (checkClientInfo env c cfg apiURL w)"
    show "follows env c w
            [CheckClientInfo, WaitForDB, CheckGraphqlSchema, BuildProductionSpa, OutputGitignore]
            (bind_io (step_io CheckClientInfo (checkClientInfo env c cfg apiURL))
               (\<lambda>_.
             bind_io (step_io WaitForDB (ext (waitForDB env cfg apiURL False)))
               (\<lambda>_.
             bind_io (step_io CheckGraphqlSchema (checkGraphqlSchema env cfg apiURL))
               (\<lambda>_.
             bind_io (step_io BuildProductionSpa (ext (buildProductionSpa env apiURL)))
               (\<lambda>_.
             bind_io (step_io OutputGitignore
                        (outputFile env (outputGitignorePath env) gitignore_content))
               (\<lambda>_. emit (build_summary env apiURL)))))))
            v5"
    proof (rule follows_check_step [OF quiet_checkClientInfo stable_checkClientInfo _ _ n5w])
      show "isOK (fst (checkClientInfo env c cfg apiURL w)) = returns env c w CheckClientInfo"
        by (simp add: pc url)
    next
      fix x6 :: unit and v6 :: world
      assume n6: "length (fetches (trace v6)) = length (fetches (trace ?u))"
      show "follows env c w [WaitForDB, CheckGraphqlSchema, BuildProductionSpa, OutputGitignore]
              (bind_io (step_io WaitForDB (ext (waitForDB env cfg apiURL False)))
                 (\<lambda>_.
               bind_io (step_io CheckGraphqlSchema (checkGraphqlSchema env cfg apiURL))
                 (\<lambda>_.
               bind_io (step_io BuildProductionSpa (ext (buildProductionSpa env apiURL)))
                 (\<lambda>_.
               bind_io (step_io OutputGitignore
                          (outputFile env (outputGitignorePath env) gitignore_content))
                 (\<lambda>_. emit (build_summary env apiURL))))))
              v6"
      proof (rule follows_ext_step)
        show "isOK (waitForDB env cfg apiURL False) = returns env c w WaitForDB"
          by (simp add: pc url)
      next
        fix x7 :: unit and v7 :: world
        assume "length (fetches (trace v7)) = length (fetches (trace v6))"
        then have n7: "length (fetches (trace v7)) = length (fetches (trace ?u))"
          using n6 by simp
        show "follows env c w [CheckGraphqlSchema, BuildProductionSpa, OutputGitignore]
                (bind_io (step_io CheckGraphqlSchema (checkGraphqlSchema env cfg apiURL))
                   (\<lambda>_.
                 bind_io (step_io BuildProductionSpa (ext (buildProductionSpa env apiURL)))
                   (\<lambda>_.
                 bind_io (step_io OutputGitignore
                            (outputFile env (outputGitignorePath env) gitignore_content))
                   (\<lambda>_. emit (build_summary env apiURL)))))
                v7"
        proof (rule follows_check_step [OF quiet_checkGraphqlSchema stable_checkGraphqlSchema _ _ n7])
          show "isOK (fst (checkGraphqlSchema env cfg apiURL ?u)) =
                  returns env c w CheckGraphqlSchema"
            by (simp add: pc url)
        next
          fix x8 :: unit and v8 :: world
          show "follows env c w [BuildProductionSpa, OutputGitignore]
                  (bind_io (step_io BuildProductionSpa (ext (buildProductionSpa env apiURL)))
                     (\<lambda>_.
                   bind_io (step_io OutputGitignore
                              (outputFile env (outputGitignorePath env) gitignore_content))
                     (\<lambda>_. emit (build_summary env apiURL))))
                  v8"
            by (intro follows_ext_step follows_gitignore_step follows_emit)
               (simp_all add: url build_summary_def)
        qed simp_all
      qed simp_all
    qed simp_all
  qed simp_all
qed

lemma quiet_warn_if: "quiet {} (warn_if b msg)"
  by (cases b) (simp_all add: warn_if_def quiet_emit quiet_return)

lemma quiet_deprecation_warnings: "quiet {} (deprecation_warnings c)"
  unfolding deprecation_warnings_def
  by (intro quiet_bind quiet_warn_if quiet_emit) simp_all

lemma deprecation_warnings_returns: "fst (deprecation_warnings c w) = Inr ()"
  by (simp add: deprecation_warnings_def bind_io_def emit_def warn_if_def return_io_def)

lemma prelude_apply:
  "\<exists>e0. vis e0 = [] \<and> fetches e0 = [] \<and>
     bind_io (deprecation_warnings c) (\<lambda>_. step_io ProcessConfig (ext (processConfig env))) w =
       (case processConfig env of
          Inl e \<Rightarrow> (Inl e, w\<lparr>trace := trace w @ e0 @ [Started ProcessConfig]\<rparr>)
        | Inr cfg \<Rightarrow>
            (Inr cfg, w\<lparr>trace := trace w @ e0 @ [Started ProcessConfig, Completed ProcessConfig]\<rparr>))"
proof -
  obtain e0 where e0: "snd (deprecation_warnings c w) = w\<lparr>trace := trace w @ e0\<rparr>"
      "vis e0 = []" "set (fetches e0) \<subseteq> {}"
    using quiet_deprecation_warnings by (rule quietD)
  have "bind_io (deprecation_warnings c) (\<lambda>_. step_io ProcessConfig (ext (processConfig env))) w =
          step_io ProcessConfig (ext (processConfig env)) (w\<lparr>trace := trace w @ e0\<rparr>)"
    using bind_io_Inr [where m = "deprecation_warnings c" and w = w,
                       OF deprecation_warnings_returns] e0(1)
    by simp
  also have "\<dots> =
       (case processConfig env of
          Inl e \<Rightarrow> (Inl e, w\<lparr>trace := trace w @ e0 @ [Started ProcessConfig]\<rparr>)
        | Inr cfg \<Rightarrow>
            (Inr cfg, w\<lparr>trace := trace w @ e0 @ [Started ProcessConfig, Completed ProcessConfig]\<rparr>))"
    by (cases "processConfig env")
       (simp_all add: step_io_def bind_io_def emit_def ext_def return_io_def)
  finally show ?thesis
    using e0(2,3) by (intro exI [of _ e0]) simp
qed

lemma all_steps_return:
  "list_all (returns env c w) all_steps \<longleftrightarrow>
     isOK (processConfig env) \<and> list_all (returns env c w) build_order"
  by (simp add: all_steps_def)

lemma execute_expected:
  "\<exists>evs. snd (execute env c w) =
           w\<lparr>trace := trace w @ evs, files := foldl write_event (files w) (vis evs)\<rparr>
     \<and> vis evs = expected env c w all_steps
     \<and> (case processConfig env of
          Inl e \<Rightarrow> fst (execute env c w) = Exited 1
        | Inr cfg \<Rightarrow>
            if list_all (returns env c w) build_order
            then fst (execute env c w) = Exited 0
            else (\<exists>e. fst (execute env c w) = Threw e))"
proof -
  let ?pre = "bind_io (deprecation_warnings c) (\<lambda>_. step_io ProcessConfig (ext (processConfig env)))"
  obtain e0 where e0: "vis e0 = []" "fetches e0 = []"
    and pre: "?pre w =
       (case processConfig env of
          Inl e \<Rightarrow> (Inl e, w\<lparr>trace := trace w @ e0 @ [Started ProcessConfig]\<rparr>)
        | Inr cfg \<Rightarrow>
            (Inr cfg, w\<lparr>trace := trace w @ e0 @ [Started ProcessConfig, Completed ProcessConfig]\<rparr>))"
    using prelude_apply [of c env w] by blast
  show ?thesis
  proof (cases "processConfig env")
    case (Inl err)
    obtain msg where msg: "err = Error msg" by (cases err)
    let ?logs = "[LogError msg,
                  LogError ''Unable to build, please fix your Tina config and try again'']"
    have p: "?pre w = (Inl (Error msg), w\<lparr>trace := trace w @ e0 @ [Started ProcessConfig]\<rparr>)"
      using pre Inl msg by simp
    have ex: "execute env c w =
            (Exited 1, w\<lparr>trace := trace w @ e0 @ Started ProcessConfig # ?logs\<rparr>)"
      unfolding execute_def by (subst p) (simp add: process_exit_def)
    have "snd (execute env c w) =
            w\<lparr>trace := trace w @ (e0 @ Started ProcessConfig # ?logs),
              files := foldl write_event (files w) (vis (e0 @ Started ProcessConfig # ?logs))\<rparr>"
      unfolding ex using e0(1) by simp
    moreover have "vis (e0 @ Started ProcessConfig # ?logs) = expected env c w all_steps"
      using e0(1) Inl by (simp add: all_steps_def)
    moreover have "case processConfig env of
          Inl e \<Rightarrow> fst (execute env c w) = Exited 1
        | Inr cfg \<Rightarrow>
            if list_all (returns env c w) build_order
            then fst (execute env c w) = Exited 0
            else (\<exists>e. fst (execute env c w) = Threw e)"
      unfolding ex using Inl by simp
    ultimately show ?thesis
      by blast
  next
    case (Inr cfg)
    let ?e1 = "e0 @ [Started ProcessConfig, Completed ProcessConfig]"
    let ?w1 = "w\<lparr>trace := trace w @ ?e1\<rparr>"
    have p: "?pre w = (Inr cfg, ?w1)"
      using pre Inr by simp
    have n: "length (fetches (trace ?w1)) = length (fetches (trace w))"
      using e0(2) by simp
    obtain e2 where e2:
      "snd (build_steps env c cfg ?w1) =
         ?w1\<lparr>trace := trace ?w1 @ e2, files := foldl write_event (files ?w1) (vis e2)\<rparr>"
      "vis e2 = expected env c w build_order"
      "isOK (fst (build_steps env c cfg ?w1)) \<longleftrightarrow> list_all (returns env c w) build_order"
      using follows_build_steps [OF Inr n, of c] unfolding follows_def by blast
    have w2: "snd (build_steps env c cfg ?w1) =
        w\<lparr>trace := trace w @ (?e1 @ e2), files := foldl write_event (files w) (vis (?e1 @ e2))\<rparr>"
      unfolding e2(1) using e0(1) by simp
    have v2: "vis (?e1 @ e2) = expected env c w all_steps"
      using e0(1) e2(2) Inr by (simp add: all_steps_def)
    have sn: "snd (execute env c w) = snd (build_steps env c cfg ?w1)"
      unfolding execute_def
      by (subst p) (cases "build_steps env c cfg ?w1"; cases "fst (build_steps env c cfg ?w1)";
                    simp add: process_exit_def)
    have ok: "fst (execute env c w) = Exited 0" if "list_all (returns env c w) build_order"
    proof -
      from that e2(3) obtain u where "fst (build_steps env c cfg ?w1) = Inr u"
        by (cases "fst (build_steps env c cfg ?w1)") simp_all
      then show ?thesis
        unfolding execute_def
        by (subst p) (cases "build_steps env c cfg ?w1", simp add: process_exit_def)
    qed
    have bad: "\<exists>e. fst (execute env c w) = Threw e" if "\<not> list_all (returns env c w) build_order"
    proof -
      from that e2(3) obtain e where "fst (build_steps env c cfg ?w1) = Inl e"
        by (cases "fst (build_steps env c cfg ?w1)") simp_all
      then have "fst (execute env c w) = Threw e"
        unfolding execute_def
        by (subst p) (cases "build_steps env c cfg ?w1", simp)
      then show ?thesis by blast
    qed
    have "case processConfig env of
          Inl e \<Rightarrow> fst (execute env c w) = Exited 1
        | Inr cfg \<Rightarrow>
            if list_all (returns env c w) build_order
            then fst (execute env c w) = Exited 0
            else (\<exists>e. fst (execute env c w) = Threw e)"
      using ok bad Inr by simp
    then show ?thesis
      using w2 v2 unfolding sn [symmetric] by blast
  qed
qed

lemma execute_cases:
  assumes "execute env c w = (out, w')" and "trace w' = trace w @ evs"
  shows "files w' = foldl write_event (files w) (vis evs)"
    and "vis evs = expected env c w all_steps"
    and "out = Exited 0 \<longleftrightarrow> list_all (returns env c w) all_steps"
    and "\<And>e. processConfig env = Inl e \<Longrightarrow> out = Exited 1"
    and "\<And>cfg. processConfig env = Inr cfg \<Longrightarrow> out = Exited 0 \<or> (\<exists>e. out = Threw e)"
proof -
  obtain evs' where e:
    "snd (execute env c w) =
       w\<lparr>trace := trace w @ evs', files := foldl write_event (files w) (vis evs')\<rparr>"
    "vis evs' = expected env c w all_steps"
    "case processConfig env of
          Inl e \<Rightarrow> fst (execute env c w) = Exited 1
        | Inr cfg \<Rightarrow>
            if list_all (returns env c w) build_order
            then fst (execute env c w) = Exited 0
            else (\<exists>e. fst (execute env c w) = Threw e)"
    using execute_expected [of env c w] by blast
  have "trace w' = trace w @ evs'" and f: "files w' = foldl write_event (files w) (vis evs')"
    using e(1) assms(1) by simp_all
  then have eq: "evs' = evs" using assms(2) by simp
  have out: "fst (execute env c w) = out"
    using assms(1) by simp
  show "files w' = foldl write_event (files w) (vis evs)"
    using f eq by simp
  show "vis evs = expected env c w all_steps"
    using e(2) eq by simp
  show "out = Exited 0 \<longleftrightarrow> list_all (returns env c w) all_steps"
    using e(3) unfolding out all_steps_return
    by (cases "processConfig env") (auto split: if_splits)
  show "\<And>e. processConfig env = Inl e \<Longrightarrow> out = Exited 1"
    using e(3) unfolding out by simp
  show "\<And>cfg. processConfig env = Inr cfg \<Longrightarrow> out = Exited 0 \<or> (\<exists>e. out = Threw e)"
    using e(3) unfolding out by (auto split: if_splits)
qed

lemma run_expected:
  "\<exists>evs. snd (run env c w) =
           w\<lparr>trace := trace w @ evs, files := foldl write_event (files w) (vis evs)\<rparr>
     \<and> vis evs = expected env c w all_steps
     \<and> fst (run env c w) =
         (if list_all (returns env c w) all_steps then Exited 0 else Exited 1)"
proof -
  let ?E = "execute env c w"
  have h: "?E = (fst ?E, snd ?E)" by simp
  obtain evs where evs:
    "snd ?E = w\<lparr>trace := trace w @ evs, files := foldl write_event (files w) (vis evs)\<rparr>"
    "vis evs = expected env c w all_steps"
    using execute_expected [of env c w] by blast
  have t: "trace (snd ?E) = trace w @ evs"
    using evs(1) by simp
  note k = execute_cases [OF h t]
  show ?thesis
  proof (cases "fst ?E")
    case (Exited n)
    then have r: "run env c w = ?E"
      by (cases ?E) (simp add: run_def)
    have "n = 0 \<or> n = 1"
      using k(4,5) Exited by (cases "processConfig env") auto
    then have "fst ?E = (if list_all (returns env c w) all_steps then Exited 0 else Exited 1)"
      using k(3) Exited by auto
    then show ?thesis
      unfolding r using evs by (intro exI [of _ evs]) simp
  next
    case (Threw e)
    then have r: "run env c w = (Exited 1, (snd ?E)\<lparr>trace := trace (snd ?E) @ [ConsoleError e]\<rparr>)"
      by (cases ?E) (simp add: run_def catch_def process_exit_def)
    have no: "\<not> list_all (returns env c w) all_steps"
      using k(3) Threw by simp
    have "snd (run env c w) =
            w\<lparr>trace := trace w @ (evs @ [ConsoleError e]),
              files := foldl write_event (files w) (vis (evs @ [ConsoleError e]))\<rparr>"
      unfolding r using evs(1) by simp
    moreover have "vis (evs @ [ConsoleError e]) = expected env c w all_steps"
      using evs(2) by simp
    moreover have "fst (run env c w) =
         (if list_all (returns env c w) all_steps then Exited 0 else Exited 1)"
      unfolding r using no by simp
    ultimately show ?thesis by blast
  qed
qed

lemma run_cases:
  assumes "run env c w = (out, w')" and "trace w' = trace w @ evs"
  shows "files w' = foldl write_event (files w) (vis evs)"
    and "vis evs = expected env c w all_steps"
    and "out = (if list_all (returns env c w) all_steps then Exited 0 else Exited 1)"
proof -
  obtain evs' where e:
    "snd (run env c w) =
       w\<lparr>trace := trace w @ evs', files := foldl write_event (files w) (vis evs')\<rparr>"
    "vis evs' = expected env c w all_steps"
    "fst (run env c w) = (if list_all (returns env c w) all_steps then Exited 0 else Exited 1)"
    using run_expected [of env c w] by blast
  have "trace w' = trace w @ evs'" and f: "files w' = foldl write_event (files w) (vis evs')"
    using e(1) assms(1) by simp_all
  then have eq: "evs' = evs" using assms(2) by simp
  show "files w' = foldl write_event (files w) (vis evs)"
    using f eq by simp
  show "vis evs = expected env c w all_steps"
    using e(2) eq by simp
  show "out = (if list_all (returns env c w) all_steps then Exited 0 else Exited 1)"
    using e(3) assms(1) by simp
qed

lemma in_vis: "visible ev \<Longrightarrow> ev \<in> set (vis evs) \<longleftrightarrow> ev \<in> set evs"
  by (simp add: vis_def)

lemma filter_about_vis: "filter (about ss) (vis evs) = filter (about ss) evs"
proof -
  have "about ss ev \<Longrightarrow> visible ev" for ev
    by (cases ev) simp_all
  then have "(visible ev \<and> about ss ev) = about ss ev" for ev
    by blast
  then show ?thesis
    by (simp add: vis_def)
qed

lemma run_vis_cases:
  assumes "run env c w = (out, w')" and "trace w' = trace w @ evs"
  shows "files w' = foldl write_event (files w) (vis evs) \<and>
     ((out = Exited 1 \<and> vis evs \<in> set (failures env c all_steps))
    \<or> (out = Exited 0 \<and> (\<exists>cfg. processConfig env = Inr cfg) \<and> vis evs = success env c all_steps))"
proof (cases "list_all (returns env c w) all_steps")
  case True
  then have "\<exists>cfg. processConfig env = Inr cfg"
    unfolding all_steps_return by (cases "processConfig env") simp_all
  then show ?thesis
    using run_cases [OF assms] True expected_all [OF True] by simp
next
  case False
  then show ?thesis
    using run_cases [OF assms] expected_fail [OF False] by simp
qed

lemma execute_vis_cases:
  assumes "execute env c w = (out, w')" and "trace w' = trace w @ evs"
  shows "vis evs \<in> set (failures env c all_steps) \<or> vis evs = success env c all_steps"
    and "(\<exists>cfg. processConfig env = Inr cfg) \<longrightarrow> vis evs \<noteq> [Started ProcessConfig]"
proof -
  note k = execute_cases [OF assms]
  show "vis evs \<in> set (failures env c all_steps) \<or> vis evs = success env c all_steps"
    unfolding k(2) using expected_all expected_fail by blast
  show "(\<exists>cfg. processConfig env = Inr cfg) \<longrightarrow> vis evs \<noteq> [Started ProcessConfig]"
    unfolding k(2) by (auto simp add: all_steps_def)
qed

lemma run_of_exit:
  assumes "fst (execute env c w) = Exited n"
  shows "run env c w = execute env c w"
  using assms by (cases "execute env c w") (simp add: run_def)

lemma run_of_throw:
  assumes "fst (execute env c w) = Threw e"
  shows "run env c w =
           (Exited 1, (snd (execute env c w))\<lparr>trace := trace (snd (execute env c w)) @ [ConsoleError e]\<rparr>)"
  using assms by (cases "execute env c w") (simp add: run_def catch_def process_exit_def)

lemmas run_defs =
  execute_def deprecation_warnings_def warn_if_def step_io_def bind_io_def emit_def ext_def
  return_io_def throw_io_def try_catch_def build_steps_def listen_def checkClientInfo_def
  check_status_def status_url_def sample_url_def
  checkGraphqlSchema_def fetchRemoteGraphqlSchema_def request_def fetch_def outputFile_def
  process_exit_def sample_env_def net_of_list_def status_response_def
  introspection_response_def ok_response_def no_flags_def fresh_def sample_config_def
  member_def opt_member_def noSDK_def

lemma good_run:
  "fst (execute (sample_env good_net) no_flags fresh) = Exited 0 \<and>
   vis (trace (snd (execute (sample_env good_net) no_flags fresh))) =
     success (sample_env good_net) no_flags all_steps"
  by (simp add: run_defs good_net_def success_def all_steps_def build_order_def build_summary_def)

lemma stale_run:
  "fst (execute (sample_env stale_net) no_flags fresh) = Threw (Error (mismatch_message sample_config)) \<and>
   Started CheckGraphqlSchema \<in> set (trace (snd (execute (sample_env stale_net) no_flags fresh))) \<and>
   Completed CheckGraphqlSchema \<notin> set (trace (snd (execute (sample_env stale_net) no_flags fresh)))"
  by (simp add: run_defs stale_net_def)

lemma trace_fresh: "trace w = trace fresh @ trace w"
  by (simp add: fresh_def)

subsection \<open>Exit codes\<close>

lemma threw_in_vis: "threw_in evs s \<longleftrightarrow> Started s \<in> set (vis evs) \<and> Completed s \<notin> set (vis evs)"
  by (simp add: threw_in_def in_vis)

lemma Completed_ok_vis: "Completed t \<in> set (ok_vis env c s) \<longleftrightarrow> t = s"
  by (cases s) auto

lemma Started_ok_vis: "Started t \<in> set (ok_vis env c s) \<longleftrightarrow> t = s"
  by (cases s) auto

lemma Started_fail_vis: "Started t \<in> set (fail_vis env c s) \<longleftrightarrow> t = s"
  by (cases s) auto

lemma Completed_fail_vis: "Completed t \<notin> set (fail_vis env c s)"
  by (cases s) auto

lemma failures_threw:
  assumes "v \<in> set (failures env c ss)" and "distinct ss"
  shows "\<exists>s \<in> set ss. Started s \<in> set v \<and> Completed s \<notin> set v"
  using assms
proof (induction ss arbitrary: v)
  case Nil
  then show ?case by simp
next
  case (Cons s ss)
  from Cons.prems(1) have "v = fail_vis env c s \<or> (\<exists>v' \<in> set (failures env c ss). v = ok_vis env c s @ v')"
    by auto
  then show ?case
  proof (elim disjE bexE)
    assume "v = fail_vis env c s"
    then have "Started s \<in> set v \<and> Completed s \<notin> set v"
      by (simp add: Started_fail_vis Completed_fail_vis)
    then show ?thesis by auto
  next
    fix v'
    assume v': "v' \<in> set (failures env c ss)" and v: "v = ok_vis env c s @ v'"
    from Cons.IH [OF v'] Cons.prems(2)
    obtain t where t: "t \<in> set ss" "Started t \<in> set v'" "Completed t \<notin> set v'"
      by auto
    have "t \<noteq> s" using t(1) Cons.prems(2) by auto
    then have "Started t \<in> set v \<and> Completed t \<notin> set v"
      using t v by (simp add: Completed_ok_vis)
    then show ?thesis using t(1) by auto
  qed
qed

lemma success_completes:
  "Started s \<in> set (success env c ss) \<Longrightarrow> Completed s \<in> set (success env c ss)"
  by (auto simp add: success_def Started_ok_vis Completed_ok_vis)

lemma failure_threw:
  assumes "vis evs \<in> set (failures env c all_steps)"
  shows "\<exists>s. threw_in evs s"
proof -
  have "distinct all_steps"
    by (simp add: all_steps_def build_order_def)
  from failures_threw [OF assms this] show ?thesis
    by (auto simp add: threw_in_vis)
qed

lemma success_none_threw:
  assumes "vis evs = success env c all_steps"
  shows "\<not> threw_in evs s"
  unfolding threw_in_vis assms
  using success_completes by blast

text \<open>
  Claim C3: \<^verbatim>\<open>catch\<close> always exits with code 1. A run of the command exits with code 1
  when processing the config throws and when any step throws (the error reaches \<^verbatim>\<open>catch\<close>),
  and with code 0 when no step throws.
\<close>

theorem run_exit_code:
  assumes "run env c w = (out, w')" and "trace w' = trace w @ evs"
  shows "(\<forall>e v. fst (catch e v) = Exited 1)
       \<and> ((\<exists>e. processConfig env = Inl e) \<longrightarrow> out = Exited 1)
       \<and> ((\<exists>s. threw_in evs s) \<longrightarrow> out = Exited 1)
       \<and> ((\<forall>s. \<not> threw_in evs s) \<longrightarrow> out = Exited 0)"
proof -
  have c: "(out = Exited 1 \<and> vis evs \<in> set (failures env c all_steps))
    \<or> (out = Exited 0 \<and> (\<exists>cfg. processConfig env = Inr cfg) \<and> vis evs = success env c all_steps)"
    using run_vis_cases [OF assms] by simp
  have "fst (catch e v) = Exited 1" for e v
    by (simp add: catch_def process_exit_def)
  moreover have "out = Exited 1" if "processConfig env = Inl e" for e
    using c that by auto
  moreover have "out = Exited 1" if "threw_in evs s" for s
    using c that success_none_threw [of evs env c s] by auto
  moreover have "out = Exited 0" if "\<forall>s. \<not> threw_in evs s"
    using c that failure_threw [of evs env c] by auto
  ultimately show ?thesis by blast
qed

theorem run_exit_code_witness:
  "(\<forall>s. \<not> threw_in (trace (snd (run (sample_env good_net) no_flags fresh))) s)
   \<and> fst (run (sample_env good_net) no_flags fresh) = Exited 0
   \<and> threw_in (trace (snd (run (sample_env stale_net) no_flags fresh))) CheckGraphqlSchema
   \<and> fst (run (sample_env stale_net) no_flags fresh) = Exited 1"
proof -
  let ?G = "run (sample_env good_net) no_flags fresh"
  let ?S = "run (sample_env stale_net) no_flags fresh"
  have g: "?G = execute (sample_env good_net) no_flags fresh"
    using good_run by (simp add: run_of_exit)
  have none: "\<forall>s. \<not> threw_in (trace (snd ?G)) s"
    using good_run success_none_threw [of "trace (snd ?G)" "sample_env good_net" no_flags]
    by (simp add: g)
  have s: "?S = (Exited 1, (snd (execute (sample_env stale_net) no_flags fresh))
      \<lparr>trace := trace (snd (execute (sample_env stale_net) no_flags fresh)) @
                [ConsoleError (Error (mismatch_message sample_config))]\<rparr>)"
    using stale_run by (simp add: run_of_throw)
  have threw: "threw_in (trace (snd ?S)) CheckGraphqlSchema"
    using stale_run by (simp add: s threw_in_def)
  have hg: "?G = (fst ?G, snd ?G)" "trace (snd ?G) = trace fresh @ trace (snd ?G)"
    by (simp, rule trace_fresh)
  have hs: "?S = (fst ?S, snd ?S)" "trace (snd ?S) = trace fresh @ trace (snd ?S)"
    by (simp, rule trace_fresh)
  have "fst ?G = Exited 0"
    using run_exit_code [OF hg] none by blast
  moreover have "fst ?S = Exited 1"
    using run_exit_code [OF hs] threw by blast
  ultimately show ?thesis using none threw by blast
qed


subsection \<open>The order of the steps\<close>

lemma prefix_marks_earlier:
  assumes "prefix xs (marks_of ss)" and "distinct ss" and "i < j" and "j < length ss"
      and "Started (ss ! j) \<in> set xs"
  shows "Completed (ss ! i) \<in> set xs"
  using assms
proof (induction ss arbitrary: xs i j)
  case Nil
  then show ?case by simp
next
  case (Cons s ss)
  obtain j' where j: "j = Suc j'"
    using Cons.prems(3) by (cases j) simp_all
  have sj: "ss ! j' \<in> set ss" and ne: "ss ! j' \<noteq> s"
    using Cons.prems(2,4) j by auto
  have m: "marks_of (s # ss) = Started s # Completed s # marks_of ss"
    by (simp add: marks_of_def)
  have st: "Started (ss ! j') \<in> set xs"
    using Cons.prems(5) j by simp
  from Cons.prems(1) m have "xs = [] \<or> xs = [Started s]
      \<or> (\<exists>ys. xs = Started s # Completed s # ys \<and> prefix ys (marks_of ss))"
    by (auto simp add: prefix_Cons)
  then show ?case
  proof (elim disjE exE conjE)
    assume "xs = []"
    then show ?thesis using st by simp
  next
    assume "xs = [Started s]"
    then show ?thesis using st ne by simp
  next
    fix ys
    assume xs: "xs = Started s # Completed s # ys" and p: "prefix ys (marks_of ss)"
    have sty: "Started (ss ! j') \<in> set ys"
      using st xs ne by simp
    show ?thesis
    proof (cases i)
      case 0
      then show ?thesis using xs by simp
    next
      case (Suc i')
      then have "Completed (ss ! i') \<in> set ys"
        using Cons.IH [OF p _ _ _ sty, of i'] Cons.prems(2,3,4) j by simp
      then show ?thesis using xs Suc by simp
    qed
  qed
qed

lemma failures_marks_prefix:
  "\<forall>v \<in> set (failures env c all_steps).
     prefix (filter (about all_steps) v) (marks_of all_steps) \<and>
     prefix (filter (about claimed_order) v) (marks_of claimed_order)"
  by (simp add: all_steps_def build_order_def claimed_order_def marks_of_def)

lemma success_marks_prefix:
  "prefix (filter (about all_steps) (success env c all_steps)) (marks_of all_steps) \<and>
   prefix (filter (about claimed_order) (success env c all_steps)) (marks_of claimed_order)"
  by (simp add: all_steps_def build_order_def claimed_order_def marks_of_def success_def)


lemma Started_expected:
  assumes "distinct ss" and "s \<in> set ss"
  shows "Started s \<in> set (expected env c w ss) \<longleftrightarrow>
           list_all (returns env c w) (takeWhile (\<lambda>t. t \<noteq> s) ss)"
  using assms
proof (induction ss)
  case Nil
  then show ?case by simp
next
  case (Cons a ss)
  show ?case
  proof (cases "a = s")
    case True
    then show ?thesis
      by (simp add: Started_ok_vis Started_fail_vis)
  next
    case False
    then have "distinct ss" "s \<in> set ss"
      using Cons.prems by auto
    from Cons.IH [OF this] False show ?thesis
      by (auto simp add: Started_ok_vis Started_fail_vis)
  qed
qed

lemma Completed_expected:
  assumes "distinct ss" and "s \<in> set ss"
  shows "Completed s \<in> set (expected env c w ss) \<longleftrightarrow>
           list_all (returns env c w) (takeWhile (\<lambda>t. t \<noteq> s) ss @ [s])"
  using assms
proof (induction ss)
  case Nil
  then show ?case by simp
next
  case (Cons a ss)
  show ?case
  proof (cases "a = s")
    case True
    then show ?thesis
      by (simp add: Completed_ok_vis Completed_fail_vis)
  next
    case False
    then have "distinct ss" "s \<in> set ss"
      using Cons.prems by auto
    from Cons.IH [OF this] False show ?thesis
      by (auto simp add: Completed_ok_vis Completed_fail_vis)
  qed
qed

lemma distinct_all_steps: "distinct all_steps"
  by (simp add: all_steps_def build_order_def)

lemma in_all_steps: "s \<in> set all_steps"
  by (cases s) (simp_all add: all_steps_def build_order_def)

lemma started_iff:
  assumes "execute env c w = (out, w')" and "trace w' = trace w @ evs"
  shows "Started s \<in> set evs \<longleftrightarrow> list_all (returns env c w) (earlier s)"
    and "Completed s \<in> set evs \<longleftrightarrow> list_all (returns env c w) (earlier s @ [s])"
proof -
  have v: "vis evs = expected env c w all_steps"
    using execute_cases(2) [OF assms] .
  have "Started s \<in> set evs \<longleftrightarrow> Started s \<in> set (vis evs)"
    by (simp add: in_vis)
  then show "Started s \<in> set evs \<longleftrightarrow> list_all (returns env c w) (earlier s)"
    unfolding v earlier_def
    using Started_expected [OF distinct_all_steps in_all_steps] by simp
  have "Completed s \<in> set evs \<longleftrightarrow> Completed s \<in> set (vis evs)"
    by (simp add: in_vis)
  then show "Completed s \<in> set evs \<longleftrightarrow> list_all (returns env c w) (earlier s @ [s])"
    unfolding v earlier_def
    using Completed_expected [OF distinct_all_steps in_all_steps] by simp
qed

lemma earlier_checks:
  "earlier CheckGraphqlSchema =
     [ProcessConfig, CreateDBServer, CreateDatabase, BuildSchema, GetASTSchema, CodegenExecute,
      CheckClientInfo, WaitForDB]"
  "earlier BuildProductionSpa =
     [ProcessConfig, CreateDBServer, CreateDatabase, BuildSchema, GetASTSchema, CodegenExecute,
      CheckClientInfo, WaitForDB, CheckGraphqlSchema]"
  "earlier CodegenExecute =
     [ProcessConfig, CreateDBServer, CreateDatabase, BuildSchema, GetASTSchema]"
  "earlier CreateDatabase = [ProcessConfig, CreateDBServer]"
  "earlier CreateDBServer = [ProcessConfig]"
  by (simp_all add: earlier_def all_steps_def build_order_def)

text \<open>
  Claim C4: in every run of \<^verbatim>\<open>execute\<close> the step marks form a prefix of the fixed sequence
  "start, return" over config load, DB server, database, schema build, AST schema, codegen,
  \<^verbatim>\<open>checkClientInfo\<close>, \<^verbatim>\<open>waitForDB\<close>, \<^verbatim>\<open>checkGraphqlSchema\<close>, static build, gitignore;
  the same holds for the steps the claim names. A step is called exactly when the call of
  every earlier step returns without error, and it is left normally exactly when its own call
  returns as well. So when \<^verbatim>\<open>waitForDB\<close> throws, neither \<^verbatim>\<open>checkGraphqlSchema\<close> nor
  \<^verbatim>\<open>buildProductionSpa\<close> is called, and when \<^verbatim>\<open>buildSchema\<close> throws, \<^verbatim>\<open>codegen.execute\<close>
  is not called.
\<close>

theorem execute_step_order:
  assumes "execute env c w = (out, w')" and "trace w' = trace w @ evs"
  shows "prefix (filter (about all_steps) evs) (marks_of all_steps)
       \<and> prefix (filter (about claimed_order) evs) (marks_of claimed_order)
       \<and> (\<forall>i j. i < j \<and> j < length all_steps \<and> Started (all_steps ! j) \<in> set evs \<longrightarrow>
                 Completed (all_steps ! i) \<in> set evs)
       \<and> (\<forall>s. Started s \<in> set evs \<longleftrightarrow> list_all (returns env c w) (earlier s))
       \<and> (\<forall>s. Completed s \<in> set evs \<longleftrightarrow> list_all (returns env c w) (earlier s @ [s]))
       \<and> (\<forall>cfg apiURL e. processConfig env = Inr cfg \<and> codegen_execute env = Inr apiURL \<and>
                waitForDB env cfg apiURL False = Inl e \<longrightarrow>
              Started CheckGraphqlSchema \<notin> set evs \<and> Started BuildProductionSpa \<notin> set evs)
       \<and> (\<forall>e. buildSchema env = Inl e \<longrightarrow> Started CodegenExecute \<notin> set evs)"
proof -
  have c: "vis evs \<in> set (failures env c all_steps) \<or> vis evs = success env c all_steps"
    using execute_vis_cases [OF assms] by blast
  have "prefix (filter (about all_steps) (vis evs)) (marks_of all_steps) \<and>
        prefix (filter (about claimed_order) (vis evs)) (marks_of claimed_order)"
    using c failures_marks_prefix [of env c] success_marks_prefix [of env c] by metis
  then have p1: "prefix (filter (about all_steps) evs) (marks_of all_steps)"
    and p2: "prefix (filter (about claimed_order) evs) (marks_of claimed_order)"
    by (simp_all add: filter_about_vis)
  have "Completed (all_steps ! i) \<in> set evs"
    if "i < j" "j < length all_steps" "Started (all_steps ! j) \<in> set evs" for i j
  proof -
    have "Started (all_steps ! j) \<in> set (filter (about all_steps) evs)"
      using that by simp
    from prefix_marks_earlier [OF p1 distinct_all_steps that(1,2) this] show ?thesis by simp
  qed
  then have p3: "\<forall>i j. i < j \<and> j < length all_steps \<and> Started (all_steps ! j) \<in> set evs \<longrightarrow>
                 Completed (all_steps ! i) \<in> set evs"
    by blast
  note k = started_iff [OF assms]
  have p4: "\<forall>s. Started s \<in> set evs \<longleftrightarrow> list_all (returns env c w) (earlier s)"
    using k(1) by blast
  have p5: "\<forall>s. Completed s \<in> set evs \<longleftrightarrow> list_all (returns env c w) (earlier s @ [s])"
    using k(2) by blast
  have "Started CheckGraphqlSchema \<notin> set evs \<and> Started BuildProductionSpa \<notin> set evs"
    if "processConfig env = Inr cfg" "codegen_execute env = Inr apiURL"
      "waitForDB env cfg apiURL False = Inl e" for cfg apiURL e
  proof -
    have "\<not> returns env c w WaitForDB"
      using that by simp
    then show ?thesis
      unfolding k(1) earlier_checks by simp
  qed
  then have p6: "\<forall>cfg apiURL e. processConfig env = Inr cfg \<and> codegen_execute env = Inr apiURL \<and>
                waitForDB env cfg apiURL False = Inl e \<longrightarrow>
              Started CheckGraphqlSchema \<notin> set evs \<and> Started BuildProductionSpa \<notin> set evs"
    by blast
  have "Started CodegenExecute \<notin> set evs" if "buildSchema env = Inl e" for e
  proof -
    have "\<not> returns env c w BuildSchema"
      using that by simp
    then show ?thesis
      unfolding k(1) earlier_checks by simp
  qed
  then have p7: "\<forall>e. buildSchema env = Inl e \<longrightarrow> Started CodegenExecute \<notin> set evs"
    by blast
  from p1 p2 p3 p4 p5 p6 p7 show ?thesis
    by (intro conjI)
qed

theorem execute_step_order_witness:
  "prefix (filter (about all_steps) (trace (snd (execute (sample_env good_net) no_flags fresh))))
     (marks_of all_steps)
   \<and> list_all (returns (sample_env good_net) no_flags fresh) (earlier BuildProductionSpa)
   \<and> Started BuildProductionSpa \<in> set (trace (snd (execute (sample_env good_net) no_flags fresh)))
   \<and> Completed CheckClientInfo \<in> set (trace (snd (execute (sample_env good_net) no_flags fresh)))
   \<and> \<not> list_all (returns (sample_env stale_net) no_flags fresh) (earlier BuildProductionSpa)
   \<and> Started BuildProductionSpa \<notin> set (trace (snd (execute (sample_env stale_net) no_flags fresh)))"
proof -
  let ?E = "execute (sample_env good_net) no_flags fresh"
  let ?S = "execute (sample_env stale_net) no_flags fresh"
  have he: "?E = (fst ?E, snd ?E)" "trace (snd ?E) = trace fresh @ trace (snd ?E)"
    by (simp, rule trace_fresh)
  have hs: "?S = (fst ?S, snd ?S)" "trace (snd ?S) = trace fresh @ trace (snd ?S)"
    by (simp, rule trace_fresh)
  have good: "list_all (returns (sample_env good_net) no_flags fresh) (earlier BuildProductionSpa)"
    unfolding earlier_checks by (simp add: run_defs good_net_def)
  have stale: "\<not> list_all (returns (sample_env stale_net) no_flags fresh) (earlier BuildProductionSpa)"
    unfolding earlier_checks by (simp add: run_defs stale_net_def)
  have i: "all_steps ! 6 = CheckClientInfo" "all_steps ! 9 = BuildProductionSpa"
    "(6::nat) < 9" "9 < length all_steps"
    by (simp_all add: all_steps_def build_order_def)
  note t = execute_step_order [OF he]
  note u = execute_step_order [OF hs]
  have st: "Started BuildProductionSpa \<in> set (trace (snd ?E))"
    using t [THEN conjunct2, THEN conjunct2, THEN conjunct2, THEN conjunct1] good by blast
  have "Completed (all_steps ! 6) \<in> set (trace (snd ?E))"
    using t [THEN conjunct2, THEN conjunct2, THEN conjunct1, rule_format, of 6 9] i st by simp
  then have co: "Completed CheckClientInfo \<in> set (trace (snd ?E))"
    using i by simp
  have ns: "Started BuildProductionSpa \<notin> set (trace (snd ?S))"
    using u [THEN conjunct2, THEN conjunct2, THEN conjunct2, THEN conjunct1] stale by blast
  show ?thesis
    using t [THEN conjunct1] good st co stale ns by (intro conjI)
qed

subsection \<open>Port, gitignore and failed checks\<close>

lemma Number_9000: "Number ''9000'' = Some 9000"
  by (simp add: Number_def)

lemma failures_port:
  "\<forall>v \<in> set (failures env c all_steps).
     (\<forall>p. ListenOn p \<in> set v \<longrightarrow> p = Number (datalayerPort c)) \<and>
     (v \<noteq> [Started ProcessConfig] \<longrightarrow> ListenOn (Number (datalayerPort c)) \<in> set v)"
  by (simp add: all_steps_def build_order_def)

lemma success_port:
  "(\<forall>p. ListenOn p \<in> set (success env c all_steps) \<longrightarrow> p = Number (datalayerPort c)) \<and>
   ListenOn (Number (datalayerPort c)) \<in> set (success env c all_steps)"
  by (simp add: all_steps_def build_order_def success_def)

lemma execute_createDBServer_throws:
  assumes "processConfig env = Inr cfg"
      and "createDBServer env (Number (datalayerPort c)) = Inl e"
  shows "fst (execute env c w) = Threw e"
proof -
  let ?pre = "bind_io (deprecation_warnings c) (\<lambda>_. step_io ProcessConfig (ext (processConfig env)))"
  obtain e0 where p: "?pre w =
      (Inr cfg, w\<lparr>trace := trace w @ e0 @ [Started ProcessConfig, Completed ProcessConfig]\<rparr>)"
    using prelude_apply [of c env w] assms(1) by auto
  let ?w1 = "w\<lparr>trace := trace w @ e0 @ [Started ProcessConfig, Completed ProcessConfig]\<rparr>"
  have "fst (build_steps env c cfg ?w1) = Inl e"
    using assms(2) by (simp add: build_steps_def step_io_def listen_def bind_io_def emit_def ext_def)
  then obtain w2 where b: "build_steps env c cfg ?w1 = (Inl e, w2)"
    by (cases "build_steps env c cfg ?w1") simp
  show ?thesis
    unfolding execute_def by (subst p) (simp add: b)
qed

text \<open>
  Claim C6: without \<^verbatim>\<open>--datalayer-port\<close> the port is the string "9000", its number is 9000,
  and \<^verbatim>\<open>createDBServer\<close> is called with 9000 whenever the config was processed: the call
  is recorded with that port and no other, and what \<^verbatim>\<open>createDBServer\<close> does on port 9000
  decides how the run goes on. If it throws there, \<^verbatim>\<open>execute\<close> throws the same error and
  the database is not created; if it returns there, the step returns and the database is
  created next.
\<close>

theorem default_datalayer_port:
  assumes "arg_datalayerPort c = None"
      and "execute env c w = (out, w')" and "trace w' = trace w @ evs"
  shows "datalayerPort c = ''9000''
       \<and> Number (datalayerPort c) = Some 9000
       \<and> (\<forall>p. ListenOn p \<in> set evs \<longrightarrow> p = Some 9000)
       \<and> ((\<exists>cfg. processConfig env = Inr cfg) \<longrightarrow> ListenOn (Some 9000) \<in> set evs)
       \<and> (\<forall>cfg e. processConfig env = Inr cfg \<and> createDBServer env (Some 9000) = Inl e \<longrightarrow>
              out = Threw e \<and> Completed CreateDBServer \<notin> set evs \<and>
              Started CreateDatabase \<notin> set evs)
       \<and> (\<forall>cfg u. processConfig env = Inr cfg \<and> createDBServer env (Some 9000) = Inr u \<longrightarrow>
              Completed CreateDBServer \<in> set evs \<and> Started CreateDatabase \<in> set evs)"
proof -
  have port: "datalayerPort c = ''9000''"
    using assms(1) by (simp add: datalayerPort_def)
  have num: "Number (datalayerPort c) = Some 9000"
    unfolding port by (rule Number_9000)
  have c: "vis evs \<in> set (failures env c all_steps) \<or> vis evs = success env c all_steps"
    and nc: "(\<exists>cfg. processConfig env = Inr cfg) \<longrightarrow> vis evs \<noteq> [Started ProcessConfig]"
    using execute_vis_cases [OF assms(2,3)] by blast+
  have both: "(\<forall>p. ListenOn p \<in> set (vis evs) \<longrightarrow> p = Number (datalayerPort c)) \<and>
     (vis evs \<noteq> [Started ProcessConfig] \<longrightarrow> ListenOn (Number (datalayerPort c)) \<in> set (vis evs))"
    using c failures_port [of env c] success_port [of env c] by metis
  have "p = Some 9000" if "ListenOn p \<in> set evs" for p
    using both that num by (simp add: in_vis)
  then have p3: "\<forall>p. ListenOn p \<in> set evs \<longrightarrow> p = Some 9000"
    by blast
  have "ListenOn (Some 9000) \<in> set evs" if "\<exists>cfg. processConfig env = Inr cfg"
    using both nc that num by (simp add: in_vis)
  then have p4: "(\<exists>cfg. processConfig env = Inr cfg) \<longrightarrow> ListenOn (Some 9000) \<in> set evs"
    by blast
  note k = started_iff [OF assms(2,3)]
  have "out = Threw e \<and> Completed CreateDBServer \<notin> set evs \<and> Started CreateDatabase \<notin> set evs"
    if "processConfig env = Inr cfg" "createDBServer env (Some 9000) = Inl e" for cfg e
  proof -
    have "fst (execute env c w) = Threw e"
      using that num by (intro execute_createDBServer_throws [of env cfg]) simp_all
    then have "out = Threw e"
      using assms(2) by simp
    moreover have "\<not> returns env c w CreateDBServer"
      using that(2) num by simp
    ultimately show ?thesis
      unfolding k earlier_checks by simp
  qed
  then have p5: "\<forall>cfg e. processConfig env = Inr cfg \<and> createDBServer env (Some 9000) = Inl e \<longrightarrow>
              out = Threw e \<and> Completed CreateDBServer \<notin> set evs \<and>
              Started CreateDatabase \<notin> set evs"
    by blast
  have "Completed CreateDBServer \<in> set evs \<and> Started CreateDatabase \<in> set evs"
    if "processConfig env = Inr cfg" "createDBServer env (Some 9000) = Inr u" for cfg u
  proof -
    have "returns env c w CreateDBServer" "returns env c w ProcessConfig"
      using that num by simp_all
    then show ?thesis
      unfolding k earlier_checks by simp
  qed
  then have p6: "\<forall>cfg u. processConfig env = Inr cfg \<and> createDBServer env (Some 9000) = Inr u \<longrightarrow>
              Completed CreateDBServer \<in> set evs \<and> Started CreateDatabase \<in> set evs"
    by blast
  from port num p3 p4 p5 p6 show ?thesis
    by (intro conjI)
qed

theorem default_datalayer_port_witness:
  "arg_datalayerPort no_flags = None
   \<and> Number (datalayerPort no_flags) = Some 9000
   \<and> ListenOn (Some 9000) \<in> set (trace (snd (execute (sample_env good_net) no_flags fresh)))
   \<and> createDBServer (sample_env good_net) (Some 9000) = Inr ()
   \<and> Started CreateDatabase \<in> set (trace (snd (execute (sample_env good_net) no_flags fresh)))
   \<and> createDBServer (port_in_use_env good_net) (Some 9000) = Inl (Error ''EADDRINUSE'')
   \<and> createDBServer (port_in_use_env good_net) (Some 4001) = Inr ()
   \<and> fst (execute (port_in_use_env good_net) no_flags fresh) = Threw (Error ''EADDRINUSE'')
   \<and> Started CreateDatabase \<notin> set (trace (snd (execute (port_in_use_env good_net) no_flags fresh)))"
proof -
  let ?E = "execute (sample_env good_net) no_flags fresh"
  let ?B = "execute (port_in_use_env good_net) no_flags fresh"
  have n: "arg_datalayerPort no_flags = None"
    by (simp add: no_flags_def)
  have h: "?E = (fst ?E, snd ?E)" "trace (snd ?E) = trace fresh @ trace (snd ?E)"
    by (simp, rule trace_fresh)
  have hb: "?B = (fst ?B, snd ?B)" "trace (snd ?B) = trace fresh @ trace (snd ?B)"
    by (simp, rule trace_fresh)
  have p: "processConfig (sample_env good_net) = Inr sample_config"
    "processConfig (port_in_use_env good_net) = Inr sample_config"
    by (simp_all add: sample_env_def port_in_use_env_def)
  have d: "createDBServer (sample_env good_net) (Some 9000) = Inr ()"
    "createDBServer (port_in_use_env good_net) (Some 9000) = Inl (Error ''EADDRINUSE'')"
    "createDBServer (port_in_use_env good_net) (Some 4001) = Inr ()"
    by (simp_all add: sample_env_def port_in_use_env_def)
  note t = default_datalayer_port [OF n h]
  note u = default_datalayer_port [OF n hb]
  have "Number (datalayerPort no_flags) = Some 9000"
    using t by blast
  moreover have "ListenOn (Some 9000) \<in> set (trace (snd ?E))"
    using t [THEN conjunct2, THEN conjunct2, THEN conjunct2, THEN conjunct1] p(1) by blast
  moreover have "Started CreateDatabase \<in> set (trace (snd ?E))"
    using t [THEN conjunct2, THEN conjunct2, THEN conjunct2, THEN conjunct2, THEN conjunct2]
      p(1) d(1) by blast
  moreover have "fst ?B = Threw (Error ''EADDRINUSE'') \<and> Started CreateDatabase \<notin> set (trace (snd ?B))"
    using u [THEN conjunct2, THEN conjunct2, THEN conjunct2, THEN conjunct2, THEN conjunct1]
      p(2) d(2) by blast
  ultimately show ?thesis
    using n d by (intro conjI) blast+
qed

lemma success_gitignore:
  "foldl write_event fs (success env c all_steps) (outputGitignorePath env) = Some gitignore_content
   \<and> OutputFile (outputGitignorePath env) gitignore_content \<in> set (success env c all_steps)
   \<and> (\<forall>p t. OutputFile p t \<in> set (success env c all_steps) \<longrightarrow>
         p = outputGitignorePath env \<and> t = gitignore_content)"
  by (simp add: all_steps_def build_order_def success_def)

text \<open>
  Claim C7: after a run that exits with code 0 the file at \<^verbatim>\<open>outputGitignorePath\<close> holds
  exactly \<^verbatim>\<open>index.html\<close>, a newline and \<^verbatim>\<open>assets/\<close>, and no other file was written by
  the command.
\<close>

theorem gitignore_written:
  assumes "run env c w = (Exited 0, w')" and "trace w' = trace w @ evs"
  shows "files w' (outputGitignorePath env) = Some (''index.html'' @ [CHR 0x0A] @ ''assets/'')
       \<and> OutputFile (outputGitignorePath env) (''index.html'' @ [CHR 0x0A] @ ''assets/'') \<in> set evs
       \<and> (\<forall>p t. OutputFile p t \<in> set evs \<longrightarrow>
             p = outputGitignorePath env \<and> t = ''index.html'' @ [CHR 0x0A] @ ''assets/'')"
proof -
  have f: "files w' = foldl write_event (files w) (vis evs)"
    and v: "vis evs = success env c all_steps"
    using run_vis_cases [OF assms] by simp_all
  have g: "gitignore_content = ''index.html'' @ [CHR 0x0A] @ ''assets/''"
    by (simp add: gitignore_content_def)
  note s = success_gitignore [of "files w" env c, folded v f]
  have a: "files w' (outputGitignorePath env) = Some gitignore_content"
    using s by simp
  have b: "OutputFile (outputGitignorePath env) gitignore_content \<in> set evs"
    using s by (simp add: in_vis)
  have d: "p = outputGitignorePath env \<and> t = gitignore_content"
    if "OutputFile p t \<in> set evs" for p t
    using s that by (simp add: in_vis)
  show ?thesis
  proof (intro conjI allI impI)
    show "files w' (outputGitignorePath env) = Some (''index.html'' @ [CHR 0x0A] @ ''assets/'')"
      using a unfolding g .
    show "OutputFile (outputGitignorePath env) (''index.html'' @ [CHR 0x0A] @ ''assets/'') \<in> set evs"
      using b unfolding g .
  next
    fix p t
    assume "OutputFile p t \<in> set evs"
    then show "p = outputGitignorePath env" "t = ''index.html'' @ [CHR 0x0A] @ ''assets/''"
      using d [of p t] g by simp_all
  qed
qed

theorem gitignore_written_witness:
  "fst (run (sample_env good_net) no_flags fresh) = Exited 0
   \<and> files (snd (run (sample_env good_net) no_flags fresh)) ''public/admin/.gitignore'' =
       Some (''index.html'' @ [CHR 0x0A] @ ''assets/'')"
proof -
  let ?G = "run (sample_env good_net) no_flags fresh"
  have g: "fst ?G = Exited 0"
    using good_run by (simp add: run_of_exit)
  then have h: "?G = (Exited 0, snd ?G)" "trace (snd ?G) = trace fresh @ trace (snd ?G)"
    by (simp add: prod_eq_iff, intro trace_fresh)
  have path: "outputGitignorePath (sample_env good_net) = ''public/admin/.gitignore''"
    by (simp add: sample_env_def)
  show ?thesis
    using gitignore_written [OF h, THEN conjunct1] g unfolding path by simp
qed


lemma failures_no_output:
  "\<forall>v \<in> set (failures env c all_steps).
     (\<forall>p t. OutputFile p t \<notin> set v) \<and> foldl write_event fs v = fs"
  by (simp add: all_steps_def build_order_def)

text \<open>
  Claim C10: when the call of \<^verbatim>\<open>checkClientInfo\<close>, of \<^verbatim>\<open>waitForDB\<close> or of
  \<^verbatim>\<open>checkGraphqlSchema\<close> throws, \<^verbatim>\<open>buildProductionSpa\<close> is never called, no file is
  written, the files are as before, and the run exits with code 1. The calls are those
  \<^verbatim>\<open>execute\<close> makes: with the config \<^verbatim>\<open>processConfig\<close> gave and the URL \<^verbatim>\<open>codegen.execute\<close>
  gave, \<^verbatim>\<open>checkClientInfo\<close> on the network as the run finds it (no request is sent before
  it), \<^verbatim>\<open>checkGraphqlSchema\<close> on the network as \<^verbatim>\<open>checkClientInfo\<close> leaves it.
\<close>

theorem failed_check_stops_build:
  assumes "run env c w = (out, w')" and "trace w' = trace w @ evs"
      and "processConfig env = Inr cfg" and "codegen_execute env = Inr apiURL"
      and "fst (checkClientInfo env c cfg apiURL w) = Inl e
         \<or> waitForDB env cfg apiURL False = Inl e
         \<or> fst (checkGraphqlSchema env cfg apiURL (snd (checkClientInfo env c cfg apiURL w))) = Inl e"
  shows "out = Exited 1
       \<and> Started BuildProductionSpa \<notin> set evs
       \<and> (\<forall>p t. OutputFile p t \<notin> set evs)
       \<and> files w' = files w"
proof -
  have "\<not> returns env c w CheckClientInfo \<or> \<not> returns env c w WaitForDB
        \<or> \<not> returns env c w CheckGraphqlSchema"
    using assms(3,4,5) by auto
  then have early: "\<not> list_all (returns env c w) (earlier BuildProductionSpa)"
    unfolding earlier_checks by auto
  then have no: "\<not> list_all (returns env c w) all_steps"
    unfolding earlier_checks by (auto simp add: all_steps_def build_order_def)
  note k = run_cases [OF assms(1,2)]
  have out: "out = Exited 1"
    using k(3) no by simp
  have v: "vis evs \<in> set (failures env c all_steps)"
    unfolding k(2) using no by (rule expected_fail)
  have "Started BuildProductionSpa \<in> set (vis evs) \<longleftrightarrow>
          list_all (returns env c w) (earlier BuildProductionSpa)"
    unfolding k(2) earlier_def
    by (rule Started_expected [OF distinct_all_steps in_all_steps])
  then have a: "Started BuildProductionSpa \<notin> set evs"
    using early by (simp add: in_vis)
  have q: "(\<forall>p t. OutputFile p t \<notin> set (vis evs)) \<and> foldl write_event (files w) (vis evs) = files w"
    using failures_no_output [of env c "files w"] v by blast
  have b: "\<forall>p t. OutputFile p t \<notin> set evs"
    using q by (simp add: in_vis)
  have d: "files w' = files w"
    using q k(1) by simp
  from out a b d show ?thesis
    by (intro conjI)
qed

theorem failed_check_stops_build_witness:
  "fst (checkGraphqlSchema (sample_env stale_net) sample_config sample_apiURL
          (snd (checkClientInfo (sample_env stale_net) no_flags sample_config sample_apiURL fresh))) =
     Inl (Error (mismatch_message sample_config))
   \<and> fst (run (sample_env stale_net) no_flags fresh) = Exited 1
   \<and> Started BuildProductionSpa \<notin> set (trace (snd (run (sample_env stale_net) no_flags fresh)))
   \<and> (\<forall>p t. OutputFile p t \<notin> set (trace (snd (run (sample_env stale_net) no_flags fresh))))
   \<and> files (snd (run (sample_env stale_net) no_flags fresh)) = files fresh"
proof -
  let ?S = "run (sample_env stale_net) no_flags fresh"
  have h: "?S = (fst ?S, snd ?S)" "trace (snd ?S) = trace fresh @ trace (snd ?S)"
    by (simp, rule trace_fresh)
  have p: "processConfig (sample_env stale_net) = Inr sample_config"
    "codegen_execute (sample_env stale_net) = Inr sample_apiURL"
    by (simp_all add: sample_env_def sample_apiURL_def)
  have t: "fst (checkGraphqlSchema (sample_env stale_net) sample_config sample_apiURL
          (snd (checkClientInfo (sample_env stale_net) no_flags sample_config sample_apiURL fresh))) =
     Inl (Error (mismatch_message sample_config))"
    by (simp add: run_defs stale_net_def)
  then have "fst (checkClientInfo (sample_env stale_net) no_flags sample_config sample_apiURL fresh) =
         Inl (Error (mismatch_message sample_config))
       \<or> waitForDB (sample_env stale_net) sample_config sample_apiURL False =
         Inl (Error (mismatch_message sample_config))
       \<or> fst (checkGraphqlSchema (sample_env stale_net) sample_config sample_apiURL
          (snd (checkClientInfo (sample_env stale_net) no_flags sample_config sample_apiURL fresh))) =
         Inl (Error (mismatch_message sample_config))"
    by blast
  from failed_check_stops_build [OF h p this] t show ?thesis
    by blast
qed

subsection \<open>The polling loop of \<^verbatim>\<open>checkClientInfo\<close>\<close>

text \<open>
  Once the first status is "unknown", \<^verbatim>\<open>checkClientInfo\<close> has no way to return: whatever the
  polls see, the statements after the loop run and throw (or a poll throws before).
\<close>

lemma throws_after:
  "\<exists>e'. fst (bind_io m (\<lambda>x. bind_io (emit a) (\<lambda>_. bind_io (ext r)
             (\<lambda>msg. bind_io (emit (b msg)) (\<lambda>_. throw_io e)))) w) = Inl e'"
  by (cases "m w"; cases "fst (m w)"; cases r)
     (simp_all add: bind_io_def emit_def ext_def throw_io_def)

lemma checkClientInfo_unknown_never_returns:
  assumes "parseURL env apiURL = Inr p" and "status_url p = Inr url"
      and "fst (request env (token cfg) url w) = Inr res"
      and "res_status res = JStr ''unknown''"
  shows "\<exists>e. fst (checkClientInfo env c cfg apiURL w) = Inl e"
proof -
  let ?guarded = "try_catch
               (bind_io (request env (token cfg) url)
                  (\<lambda>res. bind_io (emit (Tick client_bar CheckMark))
                     (\<lambda>_. return_io (\<not> (res_status res = JStr ''unknown'')))))
               (\<lambda>e. bind_io
                      (emit (Summary ''Error when checking client information''
                               [(''You provided'',
                                 [(''clientId'', clientId cfg), (''token'', token cfg)])]))
                      (\<lambda>_. throw_io e))"
  have "fst (?guarded w) = Inr False"
    using assms(3,4)
    by (cases "request env (token cfg) url w")
       (simp add: try_catch_def bind_io_def emit_def return_io_def)
  then obtain w1 where t: "?guarded w = (Inr False, w1)"
    by (cases "?guarded w") simp
  have "fst (checkClientInfo env c cfg apiURL w) =
        fst (bind_io (poll_loop env c (token cfg) url 0)
               (\<lambda>_. bind_io (emit (Tick branch_bar CrossMark))
                  (\<lambda>_. bind_io (ext (not_on_cloud_log env p))
                     (\<lambda>msg. bind_io (emit (LogError msg))
                        (\<lambda>_. throw_io (Error ''Branch is not on Tina Cloud''))))) w1)"
    unfolding checkClientInfo_def check_status_def assms(1,2) bind_ext_Inr
    by (subst bind_io_def) (simp add: t)
  then show ?thesis
    using throws_after [of "poll_loop env c (token cfg) url 0" "Tick branch_bar CrossMark"
                           "not_on_cloud_log env p" LogError
                           "Error ''Branch is not on Tina Cloud''" w1]
    by simp
qed

text \<open>
  Claim C1 at a failing input: the first status request answers "unknown" and every poll
  after it answers "success". The \<^verbatim>\<open>return\<close> after the check mark only leaves the arrow
  function handed to \<^verbatim>\<open>sleepAndCallFunc\<close>, so the loop runs on through all six rounds
  (seven requests in all) and \<^verbatim>\<open>checkClientInfo\<close> throws although a poll found the branch.
\<close>

theorem checkClientInfo_known_poll_still_throws:
  "fst (checkClientInfo (sample_env found_late_net) no_flags sample_config sample_apiURL fresh) =
     Inl (Error ''Branch is not on Tina Cloud'')
   \<and> length (fetches (trace (snd (checkClientInfo (sample_env found_late_net) no_flags
                                   sample_config sample_apiURL fresh)))) = 7"
  by (simp add: run_defs found_late_net_def poll_loop.simps poll_fn_def sleepAndCallFunc_def
        verbose_def not_on_cloud_log_def)

end
